theory Spec2Isabelle
  imports Main "HOL-Library.Char_ord" "HOL-Library.List_Lexorder"
begin

section \<open>The registry generator: strings and containers\<close>

text \<open>
  A shallow embedding of \<^verbatim>\<open>generate-registry.ts\<close>. A JavaScript string is a
  \<open>string\<close> (a list of characters); the model covers ASCII text, which is what
  directory names, file names and import paths of a registry are made of. The order on
  strings is the lexicographic order on character codes, which is the order of the
  default \<^verbatim>\<open>Array.prototype.sort\<close> on strings. The file system is a value (a tree
  of directories and files), given together with the paths whose read fails and with
  whether the manifest can be written.
\<close>

definition startsWith :: "string \<Rightarrow> string \<Rightarrow> bool" where
  "startsWith s p = (take (length p) s = p)"

definition endsWith :: "string \<Rightarrow> string \<Rightarrow> bool" where
  "endsWith s p = (length p \<le> length s \<and> drop (length s - length p) s = p)"

text \<open>
  \<^verbatim>\<open>s.split(sep)\<close> where the separator matches one character (a character,
  or a character class such as \<^verbatim>\<open>/[-_]/\<close>): never the empty list.
\<close>

fun split_by :: "(char \<Rightarrow> bool) \<Rightarrow> string \<Rightarrow> string list" where
  "split_by sep [] = [[]]"
| "split_by sep (x # xs) =
     (if sep x then [] # split_by sep xs
      else (case split_by sep xs of
              [] \<Rightarrow> [[x]]
            | y # ys \<Rightarrow> (x # y) # ys))"

definition split_str :: "char \<Rightarrow> string \<Rightarrow> string list" where
  "split_str c s = split_by (\<lambda>x. x = c) s"

text \<open>\<^verbatim>\<open>parts.join(sep)\<close>.\<close>

fun join :: "string \<Rightarrow> string list \<Rightarrow> string" where
  "join sep [] = []"
| "join sep [x] = x"
| "join sep (x # y # ys) = x @ sep @ join sep (y # ys)"

text \<open>
  A JavaScript \<^verbatim>\<open>Set\<close> keeps its elements in insertion order and holds none
  twice: a list, with \<^verbatim>\<open>add\<close> appending an element that is new.
\<close>

type_synonym 'a jsset = "'a list"

definition set_add :: "'a \<Rightarrow> 'a jsset \<Rightarrow> 'a jsset" where
  "set_add x s = (if x \<in> set s then s else s @ [x])"

definition set_delete :: "'a \<Rightarrow> 'a jsset \<Rightarrow> 'a jsset" where
  "set_delete x s = removeAll x s"

definition set_has :: "'a \<Rightarrow> 'a jsset \<Rightarrow> bool" where
  "set_has x s = (x \<in> set s)"

text \<open>\<^verbatim>\<open>other.forEach((d) => s.add(d))\<close>.\<close>

definition set_addAll :: "'a jsset \<Rightarrow> 'a jsset \<Rightarrow> 'a jsset" where
  "set_addAll other s = fold set_add other s"

text \<open>
  A JavaScript \<^verbatim>\<open>Map\<close> keeps its entries in the order in which their keys were
  first set; setting a key that is present replaces the value in place.
\<close>

type_synonym ('k, 'v) jsmap = "('k \<times> 'v) list"

fun map_set :: "'k \<Rightarrow> 'v \<Rightarrow> ('k, 'v) jsmap \<Rightarrow> ('k, 'v) jsmap" where
  "map_set k v [] = [(k, v)]"
| "map_set k v ((k', v') # m) =
     (if k' = k then (k, v) # m else (k', v') # map_set k v m)"

definition map_get :: "('k, 'v) jsmap \<Rightarrow> 'k \<Rightarrow> 'v option" where
  "map_get m k = map_of m k"

definition map_has :: "('k, 'v) jsmap \<Rightarrow> 'k \<Rightarrow> bool" where
  "map_has m k = (map_of m k \<noteq> None)"

definition map_values :: "('k, 'v) jsmap \<Rightarrow> 'v list" where
  "map_values m = map snd m"

text \<open>\<^verbatim>\<open>new Map(entries)\<close>.\<close>

definition map_new :: "('k \<times> 'v) list \<Rightarrow> ('k, 'v) jsmap" where
  "map_new entries = fold (\<lambda>(k, v). map_set k v) entries []"

section \<open>Configuration\<close>

definition LOCAL_ALIASES :: "string list" where
  "LOCAL_ALIASES = [''@/'', ''~/'', ''#'']"

text \<open>
  Each of the three \<^verbatim>\<open>SHADCN_UI_PATTERNS\<close> is a regular expression
  \<^verbatim>\<open>/^LITERAL(.+)$/\<close>; a pattern is given by its literal.
\<close>

definition SHADCN_UI_PATTERNS :: "string list" where
  "SHADCN_UI_PATTERNS = [''@/components/ui/'', ''~/components/ui/'', ''components/ui/'']"

definition NODE_BUILTINS :: "string list" where
  "NODE_BUILTINS =
    [''assert'', ''buffer'', ''child_process'', ''cluster'', ''console'', ''constants'',
     ''crypto'', ''dgram'', ''dns'', ''domain'', ''events'', ''fs'', ''http'', ''http2'',
     ''https'', ''module'', ''net'', ''os'', ''path'', ''perf_hooks'', ''process'',
     ''punycode'', ''querystring'', ''readline'', ''repl'', ''stream'', ''string_decoder'',
     ''timers'', ''tls'', ''trace_events'', ''tty'', ''url'', ''util'', ''v8'', ''vm'',
     ''worker_threads'', ''zlib'']"

section \<open>Import parsing\<close>

definition toPackageName :: "string \<Rightarrow> string" where
  "toPackageName importPath =
     (if startsWith importPath ''@''
      then join ''/'' (take 2 (split_str (CHR ''/'') importPath))
      else hd (split_str (CHR ''/'') importPath))"

definition isLocalImport :: "string \<Rightarrow> bool" where
  "isLocalImport importPath =
     (if startsWith importPath ''.'' then True
      else list_ex (\<lambda>a. startsWith importPath a) LOCAL_ALIASES)"

text \<open>
  \<^verbatim>\<open>importPath.match(/^LITERAL(.+)$/)\<close>: the path starts with the literal and at
  least one character follows; the dot matches no line terminator and, without the
  \<^verbatim>\<open>m\<close> flag, the dollar matches at the end of the string only. The result is the
  first capture group.
\<close>

definition lineTerminator :: "char \<Rightarrow> bool" where
  "lineTerminator c = (c = CHR 0x0A \<or> c = CHR 0x0D)"

definition matchPattern :: "string \<Rightarrow> string \<Rightarrow> string option" where
  "matchPattern lit importPath =
     (let rest = drop (length lit) importPath in
      if startsWith importPath lit \<and> rest \<noteq> [] \<and> \<not> list_ex lineTerminator rest
      then Some rest else None)"

text \<open>The loop of \<^verbatim>\<open>extractShadcnComponent\<close> over a list of patterns.\<close>

fun extractShadcnComponent_in :: "string list \<Rightarrow> string \<Rightarrow> string option" where
  "extractShadcnComponent_in [] importPath = None"
| "extractShadcnComponent_in (pattern # patterns) importPath =
     (case matchPattern pattern importPath of
        Some m \<Rightarrow> Some m
      | None \<Rightarrow> extractShadcnComponent_in patterns importPath)"

definition extractShadcnComponent :: "string \<Rightarrow> string option" where
  "extractShadcnComponent importPath = extractShadcnComponent_in SHADCN_UI_PATTERNS importPath"

text \<open>
  The loop of \<^verbatim>\<open>resolveRegistryDep\<close> over a list of alias prefixes: an alias the
  path does not start with is passed over (\<^verbatim>\<open>continue\<close>); the first one it starts
  with decides the result (\<^verbatim>\<open>return\<close> or \<^verbatim>\<open>break\<close>).
\<close>

fun resolveRegistryDep_in ::
  "string list \<Rightarrow> string \<Rightarrow> (string, string) jsmap \<Rightarrow> string option" where
  "resolveRegistryDep_in [] importPath registryEntityMap = None"
| "resolveRegistryDep_in (a # aliases) importPath registryEntityMap =
     (if \<not> startsWith importPath a
      then resolveRegistryDep_in aliases importPath registryEntityMap
      else
        (let rest = drop (length a) importPath in
         if map_has registryEntityMap rest then map_get registryEntityMap rest
         else
           (let parts = split_str (CHR ''/'') rest in
            if length parts \<ge> 2
            then
              (let key = parts ! 0 @ ''/'' @ parts ! 1 in
               if map_has registryEntityMap key then map_get registryEntityMap key
               else None)
            else None)))"

definition resolveRegistryDep :: "string \<Rightarrow> (string, string) jsmap \<Rightarrow> string option" where
  "resolveRegistryDep importPath registryEntityMap =
     resolveRegistryDep_in LOCAL_ALIASES importPath registryEntityMap"

record FileDeps =
  npm :: "string jsset"
  registry :: "string jsset"
  unresolved :: "string jsset"

text \<open>
  A string in a condition counts as true when it is neither \<^verbatim>\<open>null\<close> nor empty.
\<close>

definition truthy :: "string option \<Rightarrow> bool" where
  "truthy v = (case v of None \<Rightarrow> False | Some s \<Rightarrow> s \<noteq> [])"

text \<open>
  The body of the loop of \<^verbatim>\<open>analyzeFile\<close>, for one import path, on the three
  sets collected so far.
\<close>

definition analyzeImport ::
  "(string, string) jsmap \<Rightarrow> (string, string) jsmap \<Rightarrow> string \<Rightarrow> FileDeps \<Rightarrow> FileDeps" where
  "analyzeImport packageMap registryEntityMap importPath d =
     (let shadcnName = extractShadcnComponent importPath in
      if truthy shadcnName then d\<lparr>registry := set_add (the shadcnName) (registry d)\<rparr>
      else
        (let registryDep =
               (if \<not> startsWith importPath ''.''
                then resolveRegistryDep importPath registryEntityMap else None) in
         if truthy registryDep then d\<lparr>registry := set_add (the registryDep) (registry d)\<rparr>
         else if isLocalImport importPath then d
         else
           (let pkgName = toPackageName importPath in
            if set_has pkgName NODE_BUILTINS then d
            else if map_has packageMap pkgName
            then d\<lparr>npm := set_add (the (map_get packageMap pkgName)) (npm d)\<rparr>
            else d\<lparr>unresolved := set_add pkgName (unresolved d)\<rparr>)))"

text \<open>
  \<^verbatim>\<open>analyzeFile\<close>, on the import paths that \<^verbatim>\<open>extractImportPaths\<close> found in
  the source text, in the order in which it found them.
\<close>

definition analyzeFile ::
  "string list \<Rightarrow> (string, string) jsmap \<Rightarrow> (string, string) jsmap \<Rightarrow> FileDeps" where
  "analyzeFile importPaths packageMap registryEntityMap =
     fold (analyzeImport packageMap registryEntityMap) importPaths
       \<lparr>npm = [], registry = [], unresolved = []\<rparr>"

section \<open>Names\<close>

definition upperLetters :: string where
  "upperLetters = ''ABCDEFGHIJKLMNOPQRSTUVWXYZ''"

definition lowerLetters :: string where
  "lowerLetters = ''abcdefghijklmnopqrstuvwxyz''"

definition toLowerCaseChar :: "char \<Rightarrow> char" where
  "toLowerCaseChar c =
     (case map_of (zip upperLetters lowerLetters) c of Some l \<Rightarrow> l | None \<Rightarrow> c)"

definition toUpperCaseChar :: "char \<Rightarrow> char" where
  "toUpperCaseChar c =
     (case map_of (zip lowerLetters upperLetters) c of Some u \<Rightarrow> u | None \<Rightarrow> c)"

definition toLowerCase :: "string \<Rightarrow> string" where
  "toLowerCase s = map toLowerCaseChar s"

text \<open>
  Modelled from the spec: \<^verbatim>\<open>toKebabCase\<close> is imported from the library
  \<^verbatim>\<open>remeda\<close>, which is not part of the sources. The canonical name is the
  directory name "transformed to a normalized dash-separated lowercase form": the name
  is cut into words at dashes, underscores and blanks and before an upper-case letter
  that follows a lower-case one; the words are joined by dashes and lower-cased. No
  general theorem below depends on which words are cut; the worked examples use names
  on which every kebab-casing agrees.
\<close>

fun kebabWords :: "string \<Rightarrow> string \<Rightarrow> string list" where
  "kebabWords w [] = (if w = [] then [] else [w])"
| "kebabWords w (c # cs) =
     (if c \<in> set ''-_ '' then (if w = [] then [] else [w]) @ kebabWords [] cs
      else if w \<noteq> [] \<and> last w \<in> set lowerLetters \<and> c \<in> set upperLetters
      then w # kebabWords [c] cs
      else kebabWords (w @ [c]) cs)"

definition toKebabCase :: "string \<Rightarrow> string" where
  "toKebabCase s = toLowerCase (join ''-'' (kebabWords [] s))"

text \<open>
  \<^verbatim>\<open>toTitle\<close>: \<^verbatim>\<open>w.charAt(0).toUpperCase() + w.slice(1)\<close> of every word
  between dashes and underscores.
\<close>

definition capitalize :: "string \<Rightarrow> string" where
  "capitalize w = (case w of [] \<Rightarrow> [] | c # cs \<Rightarrow> toUpperCaseChar c # cs)"

definition toTitle :: "string \<Rightarrow> string" where
  "toTitle n = join '' '' (map capitalize (split_by (\<lambda>c. c = CHR ''-'' \<or> c = CHR ''_'') n))"

section \<open>File system helpers\<close>

text \<open>
  A directory is the list of its entries. A file is given by its name and by the import
  paths that \<^verbatim>\<open>extractImportPaths\<close> finds in its text (two regular expressions
  over the text, whose matching is not modelled): nothing else of a file's text is used.
\<close>

datatype dirent = FileEnt string "string list" | DirEnt string "dirent list"

text \<open>
  \<^verbatim>\<open>path.join\<close>, \<^verbatim>\<open>path.basename\<close> and \<^verbatim>\<open>path.extname\<close> on the
  paths that occur: a directory path and the name of an entry, which has no slash.
\<close>

definition path_join :: "string \<Rightarrow> string \<Rightarrow> string" where
  "path_join dir n = dir @ ''/'' @ n"

definition path_basename :: "string \<Rightarrow> string" where
  "path_basename p = last (split_str (CHR ''/'') p)"

fun lastIndexOf :: "char \<Rightarrow> string \<Rightarrow> nat option" where
  "lastIndexOf c [] = None"
| "lastIndexOf c (x # xs) =
     (case lastIndexOf c xs of
        Some i \<Rightarrow> Some (Suc i)
      | None \<Rightarrow> (if x = c then Some 0 else None))"

definition path_extname :: "string \<Rightarrow> string" where
  "path_extname p =
     (let b = path_basename p in
      case lastIndexOf (CHR ''.'') b of
        None \<Rightarrow> []
      | Some i \<Rightarrow> (if i = 0 then [] else drop i b))"

text \<open>\<^verbatim>\<open>path.basename(p, ext)\<close>.\<close>

definition path_basename_ext :: "string \<Rightarrow> string \<Rightarrow> string" where
  "path_basename_ext p ext =
     (let b = path_basename p in
      if ext \<noteq> [] \<and> b \<noteq> ext \<and> endsWith b ext then take (length b - length ext) b else b)"

fun walkDir :: "string \<Rightarrow> dirent list \<Rightarrow> (string \<times> string list) list" where
  "walkDir dir [] = []"
| "walkDir dir (FileEnt n imports # es) = (path_join dir n, imports) # walkDir dir es"
| "walkDir dir (DirEnt n sub # es) = walkDir (path_join dir n) sub @ walkDir dir es"

definition SOURCE_EXTENSIONS :: "string list" where
  "SOURCE_EXTENSIONS = [''.tsx'', ''.ts'', ''.js'', ''.jsx'']"

text \<open>
  Each of the three \<^verbatim>\<open>EXCLUDED_PATTERNS\<close> is a regular expression
  \<^verbatim>\<open>/\.WORD\.[tj]sx?$/\<close>; a pattern is given by its word.
\<close>

definition EXCLUDED_PATTERNS :: "string list" where
  "EXCLUDED_PATTERNS = [''stories'', ''test'', ''spec'']"

definition excludedTest :: "string \<Rightarrow> string \<Rightarrow> bool" where
  "excludedTest w filePath =
     list_ex (\<lambda>suffix. endsWith filePath (''.'' @ w @ suffix)) [''.ts'', ''.tsx'', ''.js'', ''.jsx'']"

definition isSourceFile :: "string \<Rightarrow> bool" where
  "isSourceFile filePath =
     (let ext = path_extname filePath in
      if \<not> set_has ext SOURCE_EXTENSIONS \<and> \<not> endsWith filePath ''.css'' then False
      else \<not> list_ex (\<lambda>pattern. excludedTest pattern filePath) EXCLUDED_PATTERNS)"

datatype RegistryItemType =
  ItemComponent | ItemBlock | ItemUi | ItemHook | ItemLib | ItemPage

datatype RegistryFileType =
  FileComponent | FileStyle | FileHook | FileLib | FilePage | FileFile

definition inferFileType :: "string \<Rightarrow> RegistryFileType \<Rightarrow> RegistryFileType" where
  "inferFileType filePath categoryDefault =
     (if endsWith filePath ''.css'' then FileStyle
      else
        (let base = toLowerCase (path_basename_ext filePath (path_extname filePath)) in
         if startsWith base ''use-'' \<or> endsWith base ''-hook'' then FileHook
         else if base = ''utils'' \<or> base = ''helpers'' \<or> base = ''lib'' then FileLib
         else categoryDefault))"

section \<open>Types and the category table\<close>

record RegistryFile =
  file_path :: string
  file_type :: RegistryFileType
  file_target :: string

record RegistryItem =
  item_name :: string
  item_type :: RegistryItemType
  item_title :: string
  item_description :: "string option"
  dependencies :: "string list option"
  registryDependencies :: "string list option"
  item_files :: "RegistryFile list"

record Registry =
  registry_schema :: string
  registry_name :: string
  registry_homepage :: string
  registry_items :: "RegistryItem list"

record PackageJson =
  pkg_dependencies :: "(string \<times> string) list option"
  pkg_devDependencies :: "(string \<times> string) list option"
  pkg_peerDependencies :: "(string \<times> string) list option"

record CliOptions =
  noOverride :: bool
  targets :: "string jsset"

record category =
  itemType :: RegistryItemType
  fileType :: RegistryFileType
  targetDir :: string

definition ENTITY_CATEGORIES :: "(string \<times> category) list" where
  "ENTITY_CATEGORIES =
    [(''components'', \<lparr>itemType = ItemComponent, fileType = FileComponent, targetDir = ''components''\<rparr>),
     (''hooks'', \<lparr>itemType = ItemHook, fileType = FileHook, targetDir = ''hooks''\<rparr>),
     (''lib'', \<lparr>itemType = ItemLib, fileType = FileLib, targetDir = ''lib''\<rparr>),
     (''types'', \<lparr>itemType = ItemLib, fileType = FileLib, targetDir = ''types''\<rparr>),
     (''styles'', \<lparr>itemType = ItemComponent, fileType = FileStyle, targetDir = ''styles''\<rparr>)]"

text \<open>
  \<^verbatim>\<open>path.resolve('registry')\<close> puts the working directory in front; no function
  here looks at more of a path than its end.
\<close>

definition REGISTRY_DIR :: string where
  "REGISTRY_DIR = ''registry''"

definition REGISTRY_SCHEMA :: string where
  "REGISTRY_SCHEMA = ''https://ui.shadcn.com/schema/registry.json''"

definition REGISTRY_NAME :: string where
  "REGISTRY_NAME = ''my-registry''"

definition REGISTRY_HOMEPAGE :: string where
  "REGISTRY_HOMEPAGE = ''https://your-registry-url.com''"

section \<open>package.json and the registry entity map\<close>

text \<open>
  A JSON file is absent; or it exists and \<^verbatim>\<open>JSON.parse(fs.readFileSync(...))\<close>
  throws, be it the read (the path is a directory, the file may not be read) or the
  parse; or the text is read and parses to a value.
\<close>

datatype 'a jsonfile = Absent | Unparseable | Parsed 'a

text \<open>
  What the run prints: the diagnostics (\<^verbatim>\<open>console.warn\<close>,
  \<^verbatim>\<open>console.error\<close>) and the status line of each entity. The informational
  lines (counts, the summary) are left out.
\<close>

datatype event =
    ErrorNoRegistryDir
  | WarnNoPackageJson
  | WarnRegistryUnparseable
  | WarnNoCategories
  | WarnNoSourceFiles string string
  | WarnUnresolvedImports string string "string list"
  | LogCategory string
  | LogSkipped string
  | LogUpdated string
  | LogAdded string

text \<open>
  \<^verbatim>\<open>loadPackageJson\<close>: the read and \<^verbatim>\<open>JSON.parse\<close> are not guarded
  there, so a file that cannot be read or does not parse throws (\<open>None\<close>).
  \<^verbatim>\<open>loadExistingRegistry\<close> catches both.
\<close>

definition loadPackageJson :: "PackageJson jsonfile \<Rightarrow> (PackageJson \<times> event list) option" where
  "loadPackageJson f =
     (case f of
        Absent \<Rightarrow>
          Some (\<lparr>pkg_dependencies = None, pkg_devDependencies = None,
                  pkg_peerDependencies = None\<rparr>, [WarnNoPackageJson])
      | Unparseable \<Rightarrow> None
      | Parsed pkg \<Rightarrow> Some (pkg, []))"

definition loadExistingRegistry :: "Registry jsonfile \<Rightarrow> Registry option \<times> event list" where
  "loadExistingRegistry f =
     (case f of
        Absent \<Rightarrow> (None, [])
      | Unparseable \<Rightarrow> (None, [WarnRegistryUnparseable])
      | Parsed r \<Rightarrow> (Some r, []))"

text \<open>\<^verbatim>\<open>Object.entries(deps ?? {})\<close> of a section is its list of pairs.\<close>

definition sectionEntries :: "(string \<times> string) list option \<Rightarrow> (string \<times> string) list" where
  "sectionEntries deps = (case deps of None \<Rightarrow> [] | Some es \<Rightarrow> es)"

definition addSection ::
  "(string \<times> string) list option \<Rightarrow> (string, string) jsmap \<Rightarrow> (string, string) jsmap" where
  "addSection deps m =
     fold (\<lambda>(n, version) m'. map_set n (n @ ''@'' @ version) m') (sectionEntries deps) m"

definition buildPackageMap :: "PackageJson \<Rightarrow> (string, string) jsmap" where
  "buildPackageMap pkg =
     fold addSection [pkg_dependencies pkg, pkg_devDependencies pkg, pkg_peerDependencies pkg] []"

fun lookupEnt :: "string \<Rightarrow> dirent list \<Rightarrow> dirent option" where
  "lookupEnt n [] = None"
| "lookupEnt n (FileEnt n' imports # es) =
     (if n' = n then Some (FileEnt n' imports) else lookupEnt n es)"
| "lookupEnt n (DirEnt n' sub # es) =
     (if n' = n then Some (DirEnt n' sub) else lookupEnt n es)"

text \<open>
  \<^verbatim>\<open>fs.readdirSync(path.join(dir, n), { withFileTypes: true })\<close>: the entries of
  the directory \<open>n\<close>; it throws (\<open>None\<close>) when \<open>n\<close> is missing or is a file.
\<close>

definition readdirSync :: "string \<Rightarrow> dirent list \<Rightarrow> dirent list option" where
  "readdirSync n es =
     (case lookupEnt n es of
        Some (DirEnt n' sub) \<Rightarrow> Some sub
      | Some (FileEnt n' imports) \<Rightarrow> None
      | None \<Rightarrow> None)"

text \<open>The entries that are directories, each with its own entries.\<close>

fun subdirs :: "dirent list \<Rightarrow> (string \<times> dirent list) list" where
  "subdirs [] = []"
| "subdirs (FileEnt n imports # es) = subdirs es"
| "subdirs (DirEnt n sub # es) = (n, sub) # subdirs es"

text \<open>
  The registry directory is missing, or the path names something that is not a
  directory, or it is a directory.
\<close>

datatype rootdir = RootMissing | RootNotDir | RootDir "dirent list"

definition rootEntries :: "rootdir \<Rightarrow> dirent list" where
  "rootEntries root = (case root of RootDir es \<Rightarrow> es | RootMissing \<Rightarrow> [] | RootNotDir \<Rightarrow> [])"

text \<open>
  The loop of \<^verbatim>\<open>buildRegistryEntityMap\<close> over the category names: a category
  whose path does not exist is passed over; one whose path is a file makes
  \<^verbatim>\<open>readdirSync\<close> throw (\<open>None\<close>).
\<close>

fun buildRegistryEntityMap_in ::
  "string list \<Rightarrow> dirent list \<Rightarrow> (string, string) jsmap \<Rightarrow> (string, string) jsmap option" where
  "buildRegistryEntityMap_in [] es m = Some m"
| "buildRegistryEntityMap_in (categoryName # cs) es m =
     (if lookupEnt categoryName es = None then buildRegistryEntityMap_in cs es m
      else
        (case readdirSync categoryName es of
           None \<Rightarrow> None
         | Some entries \<Rightarrow>
             buildRegistryEntityMap_in cs es
               (fold (\<lambda>(n, sub) m'. map_set (categoryName @ ''/'' @ n) (toKebabCase n) m')
                  (subdirs entries) m)))"

definition buildRegistryEntityMap :: "rootdir \<Rightarrow> (string, string) jsmap option" where
  "buildRegistryEntityMap root =
     buildRegistryEntityMap_in (map fst ENTITY_CATEGORIES) (rootEntries root) []"

section \<open>Processing one entity\<close>

text \<open>
  The callback of \<^verbatim>\<open>sourceFiles.map\<close> in \<^verbatim>\<open>processEntity\<close>: its effect on
  the three sets of the entity, and the file record it returns.
\<close>

definition addFileDeps ::
  "(string, string) jsmap \<Rightarrow> (string, string) jsmap \<Rightarrow> string \<times> string list \<Rightarrow>
     FileDeps \<Rightarrow> FileDeps" where
  "addFileDeps packageMap registryEntityMap f acc =
     (if \<not> endsWith (fst f) ''.css''
      then
        (let d = analyzeFile (snd f) packageMap registryEntityMap in
         \<lparr>npm = set_addAll (npm d) (npm acc),
          registry = set_addAll (registry d) (registry acc),
          unresolved = set_addAll (unresolved d) (unresolved acc)\<rparr>)
      else acc)"

definition registryFile :: "string \<Rightarrow> string \<Rightarrow> category \<Rightarrow> string \<Rightarrow> RegistryFile" where
  "registryFile categoryName entityName cat absPath =
     (let fileName = path_basename absPath in
      \<lparr>file_path = ''registry/'' @ categoryName @ ''/'' @ entityName @ ''/'' @ fileName,
       file_type = inferFileType absPath (fileType cat),
       file_target = targetDir cat @ ''/'' @ entityName @ ''/'' @ fileName\<rparr>)"

definition sourceFilesOf :: "string \<Rightarrow> dirent list \<Rightarrow> (string \<times> string list) list" where
  "sourceFilesOf entityDir entries = filter (\<lambda>f. isSourceFile (fst f)) (walkDir entityDir entries)"

text \<open>
  The three sets of an entity once every source file is read and the entity's own
  name is deleted from the registry set.
\<close>

definition entityDeps ::
  "string \<Rightarrow> (string \<times> string list) list \<Rightarrow> (string, string) jsmap \<Rightarrow>
     (string, string) jsmap \<Rightarrow> FileDeps" where
  "entityDeps entityName sourceFiles packageMap registryEntityMap =
     (let acc = fold (addFileDeps packageMap registryEntityMap) sourceFiles
                  \<lparr>npm = [], registry = [], unresolved = []\<rparr>
      in acc\<lparr>registry := set_delete (toKebabCase entityName) (registry acc)\<rparr>)"

definition processEntity ::
  "string \<Rightarrow> string \<Rightarrow> string \<Rightarrow> dirent list \<Rightarrow> category \<Rightarrow> (string, string) jsmap \<Rightarrow>
     (string, string) jsmap \<Rightarrow> RegistryItem option \<times> event list" where
  "processEntity categoryName entityName entityDir entries cat packageMap registryEntityMap =
     (let sourceFiles = sourceFilesOf entityDir entries in
      if length sourceFiles = 0 then (None, [WarnNoSourceFiles categoryName entityName])
      else
        (let deps = entityDeps entityName sourceFiles packageMap registryEntityMap;
             registryFiles = map (\<lambda>f. registryFile categoryName entityName cat (fst f)) sourceFiles;
             unknownPkgs = unresolved deps;
             warnings =
               (if length unknownPkgs > 0
                then [WarnUnresolvedImports categoryName entityName unknownPkgs] else []);
             item = \<lparr>item_name = toKebabCase entityName, item_type = itemType cat,
                      item_title = toTitle entityName, item_description = None,
                      dependencies =
                        (if length (npm deps) > 0 then Some (sort (npm deps)) else None),
                      registryDependencies =
                        (if length (registry deps) > 0 then Some (sort (registry deps)) else None),
                      item_files = registryFiles\<rparr>
         in (Some item, warnings)))"

section \<open>The run\<close>

record loop_state =
  added :: nat
  updated :: nat
  skipped :: nat
  updatedItemMap :: "(string, RegistryItem) jsmap"
  console :: "event list"

text \<open>
  The body of the loop over the entity names of a category, for the entity directory
  \<open>entityName\<close> with the entries \<open>entries\<close>.
\<close>

definition entityStep ::
  "CliOptions \<Rightarrow> (string, RegistryItem) jsmap \<Rightarrow> (string, string) jsmap \<Rightarrow>
     (string, string) jsmap \<Rightarrow> string \<Rightarrow> category \<Rightarrow> string \<Rightarrow>
     string \<times> dirent list \<Rightarrow> loop_state \<Rightarrow> loop_state" where
  "entityStep options existingItemMap packageMap registryEntityMap categoryName cat categoryDir e st =
     (let entityName = fst e;
          alreadyExists = map_has existingItemMap entityName in
      if noOverride options \<and> alreadyExists
      then st\<lparr>skipped := skipped st + 1, console := console st @ [LogSkipped entityName]\<rparr>
      else
        (let entityDir = path_join categoryDir entityName;
             r = processEntity categoryName entityName entityDir (snd e) cat
                   packageMap registryEntityMap;
             st1 = st\<lparr>console := console st @ snd r\<rparr>
         in case fst r of
              None \<Rightarrow> st1
            | Some item \<Rightarrow>
                (let st2 = st1\<lparr>updatedItemMap := map_set entityName item (updatedItemMap st1)\<rparr>
                 in if alreadyExists
                    then st2\<lparr>updated := updated st2 + 1,
                             console := console st2 @ [LogUpdated entityName]\<rparr>
                    else st2\<lparr>added := added st2 + 1,
                             console := console st2 @ [LogAdded entityName]\<rparr>)))"

definition targeted :: "CliOptions \<Rightarrow> string \<Rightarrow> string \<Rightarrow> bool" where
  "targeted options categoryName entityName =
     (if length (targets options) = 0 then True
      else set_has (categoryName @ ''/'' @ entityName) (targets options)
           \<or> set_has entityName (targets options))"

text \<open>
  The body of the loop over the active categories; \<open>None\<close> when reading the
  category directory throws.
\<close>

definition categoryStep ::
  "CliOptions \<Rightarrow> (string, RegistryItem) jsmap \<Rightarrow> (string, string) jsmap \<Rightarrow>
     (string, string) jsmap \<Rightarrow> dirent list \<Rightarrow> string \<Rightarrow> loop_state \<Rightarrow> loop_state option" where
  "categoryStep options existingItemMap packageMap registryEntityMap rootEnts categoryName st =
     (case map_get ENTITY_CATEGORIES categoryName of
        None \<Rightarrow> None
      | Some cat \<Rightarrow>
          (let categoryDir = path_join REGISTRY_DIR categoryName in
           case readdirSync categoryName rootEnts of
             None \<Rightarrow> None
           | Some entries \<Rightarrow>
               (let entityNames =
                      filter (\<lambda>e. targeted options categoryName (fst e)) (subdirs entries)
                in if length entityNames = 0 then Some st
                   else Some (fold (entityStep options existingItemMap packageMap
                                      registryEntityMap categoryName cat categoryDir)
                                entityNames
                                (st\<lparr>console := console st @ [LogCategory categoryName]\<rparr>)))))"

fun processCategories ::
  "CliOptions \<Rightarrow> (string, RegistryItem) jsmap \<Rightarrow> (string, string) jsmap \<Rightarrow>
     (string, string) jsmap \<Rightarrow> dirent list \<Rightarrow> string list \<Rightarrow> loop_state \<Rightarrow> loop_state option" where
  "processCategories options existingItemMap packageMap registryEntityMap rootEnts [] st = Some st"
| "processCategories options existingItemMap packageMap registryEntityMap rootEnts (c # cs) st =
     (case categoryStep options existingItemMap packageMap registryEntityMap rootEnts c st of
        None \<Rightarrow> None
      | Some st' \<Rightarrow>
          processCategories options existingItemMap packageMap registryEntityMap rootEnts cs st')"

definition existingItems :: "Registry option \<Rightarrow> RegistryItem list" where
  "existingItems existingRegistry =
     (case existingRegistry of None \<Rightarrow> [] | Some r \<Rightarrow> registry_items r)"

definition existingItemMapOf :: "Registry option \<Rightarrow> (string, RegistryItem) jsmap" where
  "existingItemMapOf existingRegistry =
     map_new (map (\<lambda>item. (item_name item, item)) (existingItems existingRegistry))"

definition activeCategoriesOf :: "dirent list \<Rightarrow> string list" where
  "activeCategoriesOf rootEnts =
     filter (\<lambda>n. set_has n (map fst (subdirs rootEnts))) (map fst ENTITY_CATEGORIES)"

section \<open>Reads and writes that fail\<close>

text \<open>
  Besides what the shape of the tree decides (a file where a directory is expected),
  a read can fail for reasons outside the tree (permissions, a broken link), and so can
  the write of the manifest (the path is a directory, the disk). Such a failure is an
  exception that \<^verbatim>\<open>main\<close> does not catch: the run ends at once, with a non-zero
  status, and nothing is written. A run is given the paths whose
  \<^verbatim>\<open>fs.readFileSync\<close> or \<^verbatim>\<open>fs.readdirSync\<close> throws, and whether
  \<^verbatim>\<open>fs.writeFileSync\<close> of the manifest throws.
\<close>

record io_faults =
  readFails :: "string list"
  writeFails :: bool

definition throws :: "io_faults \<Rightarrow> string list \<Rightarrow> bool" where
  "throws faults paths = list_ex (\<lambda>p. set_has p (readFails faults)) paths"

text \<open>
  The directories that \<^verbatim>\<open>walkDir(dir)\<close> lists: \<open>dir\<close> and every directory
  below it.
\<close>

fun subdirPaths :: "string \<Rightarrow> dirent list \<Rightarrow> string list" where
  "subdirPaths dir [] = []"
| "subdirPaths dir (FileEnt n imports # es) = subdirPaths dir es"
| "subdirPaths dir (DirEnt n sub # es) =
     path_join dir n # subdirPaths (path_join dir n) sub @ subdirPaths dir es"

text \<open>
  What \<^verbatim>\<open>processEntity\<close> reads: the directories of the walk, then every source
  file (a style sheet too: the file is read before its name is looked at).
\<close>

definition entityReads :: "string \<Rightarrow> dirent list \<Rightarrow> string list" where
  "entityReads entityDir entries =
     entityDir # subdirPaths entityDir entries @ map fst (sourceFilesOf entityDir entries)"

text \<open>
  What \<^verbatim>\<open>buildRegistryEntityMap\<close> reads: the directory of every category whose
  path exists.
\<close>

definition mapReads :: "dirent list \<Rightarrow> string list" where
  "mapReads rootEnts =
     map (path_join REGISTRY_DIR)
       (filter (\<lambda>c. lookupEnt c rootEnts \<noteq> None) (map fst ENTITY_CATEGORIES))"

text \<open>
  What the loop of \<^verbatim>\<open>main\<close> reads for one active category: its directory, and
  what \<^verbatim>\<open>processEntity\<close> reads for every entity that is targeted and not skipped.
\<close>

definition categoryReads ::
  "CliOptions \<Rightarrow> (string, RegistryItem) jsmap \<Rightarrow> dirent list \<Rightarrow> string \<Rightarrow> string list" where
  "categoryReads options existingItemMap rootEnts categoryName =
     (let categoryDir = path_join REGISTRY_DIR categoryName in
      case readdirSync categoryName rootEnts of
        None \<Rightarrow> [categoryDir]
      | Some entries \<Rightarrow>
          categoryDir #
          concat (map (\<lambda>e. if noOverride options \<and> map_has existingItemMap (fst e) then []
                            else entityReads (path_join categoryDir (fst e)) (snd e))
                    (filter (\<lambda>e. targeted options categoryName (fst e)) (subdirs entries))))"

definition loopReads ::
  "CliOptions \<Rightarrow> (string, RegistryItem) jsmap \<Rightarrow> dirent list \<Rightarrow> string list" where
  "loopReads options existingItemMap rootEnts =
     concat (map (categoryReads options existingItemMap rootEnts) (activeCategoriesOf rootEnts))"

text \<open>
  How a run ends: \<^verbatim>\<open>process.exit(code)\<close> before anything is written; an exception
  that nothing catches, from a read, from parsing \<^verbatim>\<open>package.json\<close> or from the
  write (nothing is written); or the one call of \<^verbatim>\<open>fs.writeFileSync\<close> returns,
  with the registry it wrote.
\<close>

datatype outcome = Exit nat | Uncaught | Wrote Registry


text \<open>
  \<^verbatim>\<open>main\<close>, from the options that \<^verbatim>\<open>parseArgs\<close> returns, the reads and the
  write that fail, the registry directory, \<^verbatim>\<open>package.json\<close> and the
  \<^verbatim>\<open>registry.json\<close> of the last run. A read that throws ends the run whatever was
  computed before it, and nothing is written before the end: so the model asks, ahead
  of each phase, whether one of the reads of the phase throws, and
  \<^verbatim>\<open>processEntity\<close> and the loops above are those of a phase whose reads succeed.
\<close>

definition main ::
  "CliOptions \<Rightarrow> io_faults \<Rightarrow> rootdir \<Rightarrow> PackageJson jsonfile \<Rightarrow> Registry jsonfile \<Rightarrow>
     outcome \<times> event list" where
  "main options faults root packageJson outputFile =
     (if root = RootMissing then (Exit 1, [ErrorNoRegistryDir])
      else
        (case loadPackageJson packageJson of
           None \<Rightarrow> (Uncaught, [])
         | Some (pkg, log1) \<Rightarrow>
             (let packageMap = buildPackageMap pkg in
              if throws faults (mapReads (rootEntries root)) then (Uncaught, log1)
              else
              case buildRegistryEntityMap root of
                None \<Rightarrow> (Uncaught, log1)
              | Some registryEntityMap \<Rightarrow>
                  (let existingRegistry = fst (loadExistingRegistry outputFile);
                       log2 = log1 @ snd (loadExistingRegistry outputFile);
                       existingItemMap = existingItemMapOf existingRegistry
                   in case root of
                        RootMissing \<Rightarrow> (Uncaught, log2)
                      | RootNotDir \<Rightarrow> (Uncaught, log2)
                      | RootDir rootEnts \<Rightarrow>
                          (if throws faults [REGISTRY_DIR] then (Uncaught, log2)
                           else
                           let activeCategories = activeCategoriesOf rootEnts in
                           if length activeCategories = 0 then (Exit 0, log2 @ [WarnNoCategories])
                           else if throws faults (loopReads options existingItemMap rootEnts)
                           then (Uncaught, log2)
                           else
                             (case processCategories options existingItemMap packageMap
                                     registryEntityMap rootEnts activeCategories
                                     \<lparr>added = 0, updated = 0, skipped = 0,
                                      updatedItemMap = existingItemMap, console = log2\<rparr> of
                                None \<Rightarrow> (Uncaught, log2)
                              | Some st \<Rightarrow>
                                  (if writeFails faults then (Uncaught, console st)
                                   else
                                  (Wrote
                                     \<lparr>registry_schema = REGISTRY_SCHEMA,
                                      registry_name =
                                        (case existingRegistry of
                                           None \<Rightarrow> REGISTRY_NAME
                                         | Some r \<Rightarrow> registry_name r),
                                      registry_homepage =
                                        (case existingRegistry of
                                           None \<Rightarrow> REGISTRY_HOMEPAGE
                                         | Some r \<Rightarrow> registry_homepage r),
                                      registry_items = map_values (updatedItemMap st)\<rparr>,
                                   console st))))))))"

section \<open>The rules in the words of the specification\<close>

text \<open>
  Alias resolution as the specification words it: take the first configured prefix the
  path starts with; strip it; look the remainder up in the index; when that misses and
  the remainder has at least two segments, look up the first two segments joined by a
  slash. No other prefix is tried.
\<close>

definition aliasResolution_spec :: "string list \<Rightarrow> string \<Rightarrow> (string \<Rightarrow> string option) \<Rightarrow> string option" where
  "aliasResolution_spec aliases importPath index =
     (case find (\<lambda>a. startsWith importPath a) aliases of
        None \<Rightarrow> None
      | Some a \<Rightarrow>
          (let remainder = drop (length a) importPath in
           case index remainder of
             Some v \<Rightarrow> Some v
           | None \<Rightarrow>
               (let segments = split_str (CHR ''/'') remainder in
                if length segments \<ge> 2
                then index (segments ! 0 @ ''/'' @ segments ! 1)
                else None)))"

text \<open>
  The version of a package by precedence of the sections: \<^verbatim>\<open>peerDependencies\<close>
  over \<^verbatim>\<open>devDependencies\<close> over \<^verbatim>\<open>dependencies\<close>.
\<close>

definition precedenceVersion :: "PackageJson \<Rightarrow> string \<Rightarrow> string option" where
  "precedenceVersion pkg n =
     (case map_of (sectionEntries (pkg_peerDependencies pkg)) n of
        Some v \<Rightarrow> Some v
      | None \<Rightarrow>
          (case map_of (sectionEntries (pkg_devDependencies pkg)) n of
             Some v \<Rightarrow> Some v
           | None \<Rightarrow> map_of (sectionEntries (pkg_dependencies pkg)) n))"

text \<open>The keys of a JSON object are pairwise different.\<close>

definition uniqueKeys :: "(string \<times> string) list option \<Rightarrow> bool" where
  "uniqueKeys deps = distinct (map fst (sectionEntries deps))"

definition distinctDeps :: "FileDeps \<Rightarrow> bool" where
  "distinctDeps d = (distinct (npm d) \<and> distinct (registry d) \<and> distinct (unresolved d))"



text \<open>The two properties of an item that the run is to keep.\<close>

definition strictlySortedLists :: "RegistryItem \<Rightarrow> bool" where
  "strictlySortedLists item =
     ((case dependencies item of None \<Rightarrow> True | Some ds \<Rightarrow> ds \<noteq> [] \<and> sorted_wrt (<) ds) \<and>
      (case registryDependencies item of None \<Rightarrow> True | Some ds \<Rightarrow> ds \<noteq> [] \<and> sorted_wrt (<) ds))"

definition noSelfReference :: "RegistryItem \<Rightarrow> bool" where
  "noSelfReference item =
     (case registryDependencies item of None \<Rightarrow> True | Some ds \<Rightarrow> item_name item \<notin> set ds)"

section \<open>Worked examples: the data\<close>

definition overwrite :: CliOptions where
  "overwrite = \<lparr>noOverride = False, targets = []\<rparr>"

definition keep_existing :: CliOptions where
  "keep_existing = \<lparr>noOverride = True, targets = []\<rparr>"

definition no_faults :: io_faults where
  "no_faults = \<lparr>readFails = [], writeFails = False\<rparr>"



definition components :: category where
  "components = \<lparr>itemType = ItemComponent, fileType = FileComponent, targetDir = ''components''\<rparr>"

definition example_packageJson :: PackageJson where
  "example_packageJson =
     \<lparr>pkg_dependencies = Some [(''react'', ''18.2.0''), (''clsx'', ''2.0.0'')],
      pkg_devDependencies = Some [(''vitest'', ''1.0.0'')],
      pkg_peerDependencies = Some [(''react'', ''^18'')]\<rparr>"

text \<open>The entity \<^verbatim>\<open>components/card\<close>, whose file imports from its own directory.\<close>

definition card_entries :: "dirent list" where
  "card_entries =
     [FileEnt ''card.tsx'' [''@/components/card/helpers'', ''@/components/ui/input'', ''react'']]"

definition card_item :: RegistryItem where
  "card_item =
     \<lparr>item_name = ''card'', item_type = ItemComponent, item_title = ''Card'',
      item_description = None, dependencies = Some [''react@^18''],
      registryDependencies = Some [''input''],
      item_files =
        [\<lparr>file_path = ''registry/components/card/card.tsx'', file_type = FileComponent,
          file_target = ''components/card/card.tsx''\<rparr>]\<rparr>"

text \<open>
  The entity \<^verbatim>\<open>components/button\<close>: it imports \<^verbatim>\<open>react\<close> before
  \<^verbatim>\<open>clsx\<close>, and \<^verbatim>\<open>react\<close> a second time by a deeper path.
\<close>

definition button_entries :: "dirent list" where
  "button_entries =
     [FileEnt ''button.tsx'' [''react'', ''clsx'', ''react/jsx-runtime''],
      FileEnt ''button.test.tsx'' [''vitest'']]"

definition button_item :: RegistryItem where
  "button_item =
     \<lparr>item_name = ''button'', item_type = ItemComponent, item_title = ''Button'',
      item_description = None, dependencies = Some [''clsx@2.0.0'', ''react@^18''],
      registryDependencies = None,
      item_files =
        [\<lparr>file_path = ''registry/components/button/button.tsx'', file_type = FileComponent,
          file_target = ''components/button/button.tsx''\<rparr>]\<rparr>"

text \<open>A registry directory and the manifest an earlier run left, edited by hand since.\<close>

definition example_root :: rootdir where
  "example_root =
     RootDir [FileEnt ''README.md'' [],
              DirEnt ''components'' [DirEnt ''button'' button_entries, DirEnt ''card'' card_entries]]"

definition persisted_button :: RegistryItem where
  "persisted_button =
     \<lparr>item_name = ''button'', item_type = ItemComponent, item_title = ''Button (edited)'',
      item_description = Some ''kept by hand'', dependencies = None,
      registryDependencies = None, item_files = []\<rparr>"

definition persisted_registry :: Registry where
  "persisted_registry =
     \<lparr>registry_schema = ''https://example.com/schema.json'', registry_name = ''acme'',
      registry_homepage = ''https://acme.example'', registry_items = [persisted_button]\<rparr>"

definition kept_registry :: Registry where
  "kept_registry =
     \<lparr>registry_schema = ''https://ui.shadcn.com/schema/registry.json'', registry_name = ''acme'',
      registry_homepage = ''https://acme.example'',
      registry_items = [persisted_button, card_item]\<rparr>"

definition fresh_registry :: Registry where
  "fresh_registry =
     \<lparr>registry_schema = ''https://ui.shadcn.com/schema/registry.json'',
      registry_name = ''my-registry'', registry_homepage = ''https://your-registry-url.com'',
      registry_items = [button_item, card_item]\<rparr>"

text \<open>
  A directory \<^verbatim>\<open>components/MyButton\<close>, and the manifest that a first run over it
  wrote: its item is named \<^verbatim>\<open>my-button\<close>.
\<close>

definition pascal_root :: rootdir where
  "pascal_root =
     RootDir [DirEnt ''components'' [DirEnt ''MyButton'' [FileEnt ''MyButton.tsx'' [''react'']]]]"

definition stale_my_button :: RegistryItem where
  "stale_my_button =
     \<lparr>item_name = ''my-button'', item_type = ItemComponent, item_title = ''MyButton'',
      item_description = None, dependencies = None, registryDependencies = None,
      item_files =
        [\<lparr>file_path = ''registry/components/MyButton/Legacy.tsx'', file_type = FileComponent,
          file_target = ''components/MyButton/Legacy.tsx''\<rparr>]\<rparr>"

definition fresh_my_button :: RegistryItem where
  "fresh_my_button =
     \<lparr>item_name = ''my-button'', item_type = ItemComponent, item_title = ''MyButton'',
      item_description = None, dependencies = Some [''react@^18''], registryDependencies = None,
      item_files =
        [\<lparr>file_path = ''registry/components/MyButton/MyButton.tsx'', file_type = FileComponent,
          file_target = ''components/MyButton/MyButton.tsx''\<rparr>]\<rparr>"

definition pascal_registry :: Registry where
  "pascal_registry =
     \<lparr>registry_schema = ''https://ui.shadcn.com/schema/registry.json'',
      registry_name = ''my-registry'', registry_homepage = ''https://your-registry-url.com'',
      registry_items = [stale_my_button]\<rparr>"

text \<open>An entity directory with a test file and a note, and the state a loop starts in.\<close>

definition empty_entries :: "dirent list" where
  "empty_entries = [FileEnt ''empty.test.tsx'' [''vitest''], FileEnt ''notes.md'' []]"

definition start_state :: "(string, RegistryItem) jsmap \<Rightarrow> loop_state" where
  "start_state m = \<lparr>added = 0, updated = 0, skipped = 0, updatedItemMap = m, console = []\<rparr>"

section \<open>Containers\<close>

lemma distinct_set_add: "distinct s \<Longrightarrow> distinct (set_add x s)"
  by (simp add: set_add_def)

lemma distinct_set_addAll: "distinct s \<Longrightarrow> distinct (set_addAll other s)"
  unfolding set_addAll_def by (induction other arbitrary: s) (simp_all add: distinct_set_add)

lemma set_set_add: "set (set_add x s) = insert x (set s)"
  by (auto simp: set_add_def)

lemma set_set_addAll: "set (set_addAll other s) = set other \<union> set s"
  unfolding set_addAll_def by (induction other arbitrary: s) (auto simp: set_set_add)

lemma map_of_map_set: "map_of (map_set k v m) k' = (if k' = k then Some v else map_of m k')"
  by (induction m) auto

lemma map_set_append:
  "map_of ex k = None \<Longrightarrow> map_set k v (ex @ rest) = ex @ map_set k v rest"
  by (induction ex) auto

lemma fold_map_set_lookup:
  "distinct (map fst es) \<Longrightarrow>
   map_of (fold (\<lambda>(n, v). map_set n (f n v)) es m) k =
     (case map_of es k of Some v \<Rightarrow> Some (f k v) | None \<Rightarrow> map_of m k)"
proof (induction es arbitrary: m)
  case Nil
  then show ?case by simp
next
  case (Cons e es)
  obtain n v where e: "e = (n, v)" by (cases e)
  from Cons.prems e have d: "distinct (map fst es)" and nn: "map_of es n = None"
    by (auto simp: map_of_eq_None_iff)
  have "map_of (fold (\<lambda>(n, v). map_set n (f n v)) (e # es) m) k =
        map_of (fold (\<lambda>(n, v). map_set n (f n v)) es (map_set n (f n v) m)) k"
    by (simp add: e)
  also have "\<dots> = (case map_of es k of Some v' \<Rightarrow> Some (f k v')
                      | None \<Rightarrow> map_of (map_set n (f n v) m) k)"
    by (rule Cons.IH [OF d])
  also have "\<dots> = (case map_of (e # es) k of Some v \<Rightarrow> Some (f k v) | None \<Rightarrow> map_of m k)"
    using nn by (auto simp: e map_of_map_set split: option.splits)
  finally show ?case .
qed

lemma fold_map_set_distinct:
  "distinct (map fst (m @ es)) \<Longrightarrow> fold (\<lambda>(k, v). map_set k v) es m = m @ es"
proof (induction es arbitrary: m)
  case Nil
  then show ?case by simp
next
  case (Cons e es)
  obtain k v where e: "e = (k, v)" by (cases e)
  from Cons.prems e have "map_of m k = None"
    by (auto simp: map_of_eq_None_iff)
  then have "map_set k v (m @ []) = m @ map_set k v []" by (rule map_set_append)
  then have s: "map_set k v m = m @ [(k, v)]" by simp
  from Cons.prems e have "distinct (map fst ((m @ [(k, v)]) @ es))" by simp
  from Cons.IH [OF this] show ?case by (simp add: e s)
qed

lemma map_new_distinct: "distinct (map fst es) \<Longrightarrow> map_new es = es"
  unfolding map_new_def using fold_map_set_distinct [of "[]" es] by simp

section \<open>Classification of one import path\<close>

lemma startsWith_Cons:
  "startsWith s (c # p) \<longleftrightarrow> (\<exists>t. s = c # t \<and> startsWith t p)"
  by (cases s) (auto simp: startsWith_def)

lemma extractShadcnComponent_in_first:
  "\<forall>q\<in>set pre. matchPattern q p = None \<Longrightarrow> matchPattern lit p = Some n \<Longrightarrow>
   extractShadcnComponent_in (pre @ lit # post) p = Some n"
  by (induction pre) simp_all

lemma matchPattern_nonempty: "matchPattern lit p = Some n \<Longrightarrow> n \<noteq> [] \<and> n = drop (length lit) p"
  by (auto simp: matchPattern_def Let_def split: if_splits)

text \<open>
  Claim C3. An import path that matches a configured UI-component pattern yields the
  catalog dependency named by the first capture group of the first pattern that matches,
  and nothing else: the package dependencies and the unresolved names stay as they
  were, whatever the package table and the entity index hold.
\<close>

theorem ui_component_wins:
  assumes "SHADCN_UI_PATTERNS = pre @ lit # post"
    and "\<forall>q\<in>set pre. matchPattern q importPath = None"
    and "matchPattern lit importPath = Some n"
  shows "extractShadcnComponent importPath = Some n \<and>
         n = drop (length lit) importPath \<and>
         analyzeImport packageMap registryEntityMap importPath d = d\<lparr>registry := set_add n (registry d)\<rparr>"
proof -
  have e: "extractShadcnComponent importPath = Some n"
    unfolding extractShadcnComponent_def assms(1)
    by (rule extractShadcnComponent_in_first [OF assms(2,3)])
  have ne: "n \<noteq> []"
    using matchPattern_nonempty [OF assms(3)] by (rule conjunct1)
  have dr: "n = drop (length lit) importPath"
    using matchPattern_nonempty [OF assms(3)] by (rule conjunct2)
  have "analyzeImport packageMap registryEntityMap importPath d = d\<lparr>registry := set_add n (registry d)\<rparr>"
    using e ne by (simp add: analyzeImport_def truthy_def)
  with e dr show ?thesis by blast
qed

text \<open>
  The path \<^verbatim>\<open>~/components/ui/card\<close> matches the second pattern and not the
  first; it starts with an alias prefix, and the index has the key
  \<^verbatim>\<open>components/ui\<close>, but the capture group \<^verbatim>\<open>card\<close> is what is recorded.
\<close>

theorem ui_component_wins_witness:
  "analyzeImport [(''react'', ''react@18.2.0'')] [(''components/ui'', ''ui'')] ''~/components/ui/card''
     \<lparr>npm = [], registry = [], unresolved = []\<rparr> = \<lparr>npm = [], registry = [''card''], unresolved = []\<rparr>"
proof -
  have a: "SHADCN_UI_PATTERNS = [''@/components/ui/''] @ ''~/components/ui/'' # [''components/ui/'']"
    by (simp add: SHADCN_UI_PATTERNS_def)
  have b: "\<forall>q\<in>set [''@/components/ui/'']. matchPattern q ''~/components/ui/card'' = None"
    by (simp add: matchPattern_def startsWith_def)
  have c: "matchPattern ''~/components/ui/'' ''~/components/ui/card'' = Some ''card''"
    by (simp add: matchPattern_def startsWith_def lineTerminator_def)
  show ?thesis
    using ui_component_wins [OF a b c] by (simp add: set_add_def)
qed

lemma resolve_refines:
  "resolveRegistryDep_in aliases p rm = aliasResolution_spec aliases p (map_get rm)"
  by (induction aliases) (auto simp: aliasResolution_spec_def Let_def map_has_def map_get_def split: option.splits)

lemma isLocal_alias: "list_ex (\<lambda>a. startsWith p a) LOCAL_ALIASES \<Longrightarrow> isLocalImport p"
  by (simp add: isLocalImport_def)

text \<open>
  Claim C2. The loop of \<^verbatim>\<open>resolveRegistryDep\<close> computes the alias resolution of
  the specification for every list of prefixes: the first prefix that matches decides,
  by the exact key and then by the key of the first two segments. A path that starts
  with a configured prefix, matches no UI-component pattern and hits neither key is
  dropped: none of the three sets changes. (When a key is hit, its value, unless empty,
  is recorded as a catalog dependency and nothing else changes.)
\<close>

theorem alias_resolution:
  "resolveRegistryDep_in aliases importPath registryEntityMap =
     aliasResolution_spec aliases importPath (map_get registryEntityMap) \<and>
   (list_ex (\<lambda>a. startsWith importPath a) LOCAL_ALIASES \<and>
    extractShadcnComponent importPath = None \<and>
    aliasResolution_spec LOCAL_ALIASES importPath (map_get registryEntityMap) = None \<longrightarrow>
    analyzeImport packageMap registryEntityMap importPath d = d) \<and>
   (list_ex (\<lambda>a. startsWith importPath a) LOCAL_ALIASES \<and>
    extractShadcnComponent importPath = None \<and>
    aliasResolution_spec LOCAL_ALIASES importPath (map_get registryEntityMap) = Some v \<and> v \<noteq> [] \<longrightarrow>
    analyzeImport packageMap registryEntityMap importPath d = d\<lparr>registry := set_add v (registry d)\<rparr>)"
proof -
  have r: "resolveRegistryDep_in as importPath registryEntityMap =
     aliasResolution_spec as importPath (map_get registryEntityMap)" for as
    by (rule resolve_refines)
  have dot: "\<not> startsWith importPath ''.''" if "list_ex (\<lambda>a. startsWith importPath a) LOCAL_ALIASES"
    using that by (auto simp: LOCAL_ALIASES_def startsWith_Cons)
  have a: "analyzeImport packageMap registryEntityMap importPath d = d"
    if "list_ex (\<lambda>a. startsWith importPath a) LOCAL_ALIASES"
      and "extractShadcnComponent importPath = None"
      and "aliasResolution_spec LOCAL_ALIASES importPath (map_get registryEntityMap) = None"
    using that
    by (simp add: analyzeImport_def truthy_def resolveRegistryDep_def r isLocal_alias)
  have b: "analyzeImport packageMap registryEntityMap importPath d = d\<lparr>registry := set_add v (registry d)\<rparr>"
    if "list_ex (\<lambda>a. startsWith importPath a) LOCAL_ALIASES"
      and "extractShadcnComponent importPath = None"
      and "aliasResolution_spec LOCAL_ALIASES importPath (map_get registryEntityMap) = Some v"
      and "v \<noteq> []"
    using that dot [OF that(1)]
    by (simp add: analyzeImport_def truthy_def resolveRegistryDep_def r)
  from r a b show ?thesis by blast
qed

text \<open>
  With the prefixes \<^verbatim>\<open>@/\<close> and \<^verbatim>\<open>@/lib/\<close>, the path
  \<^verbatim>\<open>@/lib/utils\<close> is resolved under the first one only: the second would have
  found the key \<^verbatim>\<open>utils\<close>.
\<close>

theorem alias_resolution_witness:
  "resolveRegistryDep_in [''@/'', ''@/lib/''] ''@/lib/utils'' [(''utils'', ''u'')] = None \<and>
   analyzeImport [] [(''utils'', ''u'')] ''@/lib/utils'' \<lparr>npm = [], registry = [], unresolved = []\<rparr>
     = \<lparr>npm = [], registry = [], unresolved = []\<rparr> \<and>
   analyzeImport [] [(''lib/utils'', ''utils'')] ''@/lib/utils/utils''
       \<lparr>npm = [], registry = [], unresolved = []\<rparr>
     = \<lparr>npm = [], registry = [''utils''], unresolved = []\<rparr>"
proof -
  have s1: "aliasResolution_spec [''@/'', ''@/lib/''] ''@/lib/utils'' (map_get [(''utils'', ''u'')]) = None"
    by code_simp
  have s2: "aliasResolution_spec LOCAL_ALIASES ''@/lib/utils'' (map_get [(''utils'', ''u'')]) = None"
    by code_simp
  have h1: "list_ex (\<lambda>a. startsWith ''@/lib/utils'' a) LOCAL_ALIASES"
    by code_simp
  have h2: "extractShadcnComponent ''@/lib/utils'' = None"
    by code_simp
  have s3: "aliasResolution_spec LOCAL_ALIASES ''@/lib/utils/utils'' (map_get [(''lib/utils'', ''utils'')])
              = Some ''utils''"
    by code_simp
  have h3: "list_ex (\<lambda>a. startsWith ''@/lib/utils/utils'' a) LOCAL_ALIASES"
    by code_simp
  have h4: "extractShadcnComponent ''@/lib/utils/utils'' = None"
    by code_simp
  have miss: "resolveRegistryDep_in [''@/'', ''@/lib/''] ''@/lib/utils'' [(''utils'', ''u'')] = None \<and>
      analyzeImport [] [(''utils'', ''u'')] ''@/lib/utils'' \<lparr>npm = [], registry = [], unresolved = []\<rparr>
        = \<lparr>npm = [], registry = [], unresolved = []\<rparr>"
    using alias_resolution [of "[''@/'', ''@/lib/'']" "''@/lib/utils''" "[(''utils'', ''u'')]" "[]"
        "\<lparr>npm = [], registry = [], unresolved = []\<rparr>"] s1 s2 h1 h2
    by simp
  have hit: "analyzeImport [] [(''lib/utils'', ''utils'')] ''@/lib/utils/utils''
       \<lparr>npm = [], registry = [], unresolved = []\<rparr>
     = \<lparr>npm = [], registry = [''utils''], unresolved = []\<rparr>"
    using alias_resolution [where importPath = "''@/lib/utils/utils''"
        and registryEntityMap = "[(''lib/utils'', ''utils'')]" and v = "''utils''"
        and packageMap = "[]" and d = "\<lparr>npm = [], registry = [], unresolved = []\<rparr>"] s3 h3 h4
    by (simp add: set_add_def)
  from miss hit show ?thesis by blast
qed

section \<open>The dependency sets of an entity\<close>

lemma distinctDeps_analyzeImport:
  "distinctDeps d \<Longrightarrow> distinctDeps (analyzeImport pm rm p d)"
  by (simp add: distinctDeps_def analyzeImport_def Let_def distinct_set_add)

lemma distinctDeps_fold_analyzeImport:
  "distinctDeps d \<Longrightarrow> distinctDeps (fold (analyzeImport pm rm) ps d)"
  by (induction ps arbitrary: d) (simp_all add: distinctDeps_analyzeImport)

lemma distinctDeps_addFileDeps:
  "distinctDeps acc \<Longrightarrow> distinctDeps (addFileDeps pm rm f acc)"
  by (simp add: distinctDeps_def addFileDeps_def Let_def distinct_set_addAll)

lemma distinctDeps_fold_addFileDeps:
  "distinctDeps acc \<Longrightarrow> distinctDeps (fold (addFileDeps pm rm) fs acc)"
  by (induction fs arbitrary: acc) (simp_all add: distinctDeps_addFileDeps)

lemma distinctDeps_entityDeps: "distinctDeps (entityDeps e fs pm rm)"
proof -
  have "distinctDeps (fold (addFileDeps pm rm) fs \<lparr>npm = [], registry = [], unresolved = []\<rparr>)"
    by (rule distinctDeps_fold_addFileDeps) (simp add: distinctDeps_def)
  then show ?thesis
    by (simp add: entityDeps_def Let_def distinctDeps_def set_delete_def distinct_removeAll)
qed

lemma self_not_in_entityDeps: "toKebabCase e \<notin> set (registry (entityDeps e fs pm rm))"
  by (simp add: entityDeps_def Let_def set_delete_def)

lemma processEntity_Some:
  "processEntity cn e dir entries cat pm rm = (Some item, w) \<Longrightarrow>
   item = \<lparr>item_name = toKebabCase e, item_type = itemType cat,
            item_title = toTitle e, item_description = None,
            dependencies =
              (if npm (entityDeps e (sourceFilesOf dir entries) pm rm) = [] then None
               else Some (sort (npm (entityDeps e (sourceFilesOf dir entries) pm rm)))),
            registryDependencies =
              (if registry (entityDeps e (sourceFilesOf dir entries) pm rm) = [] then None
               else Some (sort (registry (entityDeps e (sourceFilesOf dir entries) pm rm)))),
            item_files = map (\<lambda>f. registryFile cn e cat (fst f)) (sourceFilesOf dir entries)\<rparr>"
  by (auto simp: processEntity_def Let_def split: if_splits)

lemma processEntity_no_sources:
  "sourceFilesOf dir entries = [] \<Longrightarrow>
   processEntity cn e dir entries cat pm rm = (None, [WarnNoSourceFiles cn e])"
  by (simp add: processEntity_def)

lemma entity_no_self_reference:
  "toKebabCase entityName \<notin> set (registry (entityDeps entityName sourceFiles packageMap registryEntityMap)) \<and>
   set_delete (toKebabCase entityName)
       (registry (entityDeps entityName sourceFiles packageMap registryEntityMap))
     = registry (entityDeps entityName sourceFiles packageMap registryEntityMap) \<and>
   (\<forall>item w ds.
      processEntity categoryName entityName entityDir entries cat packageMap registryEntityMap = (Some item, w)
      \<and> registryDependencies item = Some ds \<longrightarrow> toKebabCase entityName \<notin> set ds)"
proof -
  have a: "toKebabCase entityName \<notin> set (registry (entityDeps entityName sourceFiles packageMap registryEntityMap))"
    by (rule self_not_in_entityDeps)
  have b: "set_delete (toKebabCase entityName)
       (registry (entityDeps entityName sourceFiles packageMap registryEntityMap))
     = registry (entityDeps entityName sourceFiles packageMap registryEntityMap)"
    by (simp add: entityDeps_def Let_def set_delete_def)
  have c: "toKebabCase entityName \<notin> set ds"
    if "processEntity categoryName entityName entityDir entries cat packageMap registryEntityMap = (Some item, w)"
      and "registryDependencies item = Some ds" for item w ds
  proof -
    from processEntity_Some [OF that(1)] that(2)
    have "ds = sort (registry (entityDeps entityName (sourceFilesOf entityDir entries) packageMap registryEntityMap))"
      by (simp split: if_splits)
    then show ?thesis by (simp add: self_not_in_entityDeps)
  qed
  from a b c show ?thesis by blast
qed

lemma processEntity_lists:
  assumes "processEntity categoryName entityName entityDir entries cat packageMap registryEntityMap = (Some item, w)"
  shows "(case dependencies item of
            None \<Rightarrow> npm (entityDeps entityName (sourceFilesOf entityDir entries) packageMap registryEntityMap) = []
          | Some ds \<Rightarrow> ds \<noteq> [] \<and> sorted_wrt (<) ds \<and> distinct ds \<and>
              set ds = set (npm (entityDeps entityName (sourceFilesOf entityDir entries) packageMap registryEntityMap))) \<and>
         (case registryDependencies item of
            None \<Rightarrow> registry (entityDeps entityName (sourceFilesOf entityDir entries) packageMap registryEntityMap) = []
          | Some ds \<Rightarrow> ds \<noteq> [] \<and> sorted_wrt (<) ds \<and> distinct ds \<and>
              set ds = set (registry (entityDeps entityName (sourceFilesOf entityDir entries) packageMap registryEntityMap)))"
proof -
  let ?D = "entityDeps entityName (sourceFilesOf entityDir entries) packageMap registryEntityMap"
  have d: "distinct (npm ?D)" "distinct (registry ?D)"
    using distinctDeps_entityDeps [of entityName "sourceFilesOf entityDir entries" packageMap registryEntityMap]
    by (simp_all add: distinctDeps_def)
  have s: "sorted_wrt (<) (sort xs)" if "distinct xs" for xs :: "string list"
    using that by (simp add: strict_sorted_iff)
  have ne: "sort xs \<noteq> []" if "xs \<noteq> []" for xs :: "string list"
    using that by (metis length_sort length_0_conv)
  show ?thesis
    using processEntity_Some [OF assms] d
    by (simp add: s ne)
qed

lemma processEntity_strictlySorted:
  "processEntity cn e dir entries cat pm rm = (Some item, w) \<Longrightarrow> strictlySortedLists item"
  using processEntity_lists [of cn e dir entries cat pm rm item w]
  by (auto simp: strictlySortedLists_def split: option.splits)

lemma processEntity_noSelfReference:
  "processEntity cn e dir entries cat pm rm = (Some item, w) \<Longrightarrow> noSelfReference item"
proof -
  assume p: "processEntity cn e dir entries cat pm rm = (Some item, w)"
  from processEntity_Some [OF p] have n: "item_name item = toKebabCase e" by simp
  show ?thesis
    using entity_no_self_reference [where entityName = e and categoryName = cn and entityDir = dir
        and entries = entries and cat = cat and packageMap = pm and registryEntityMap = rm] p n
    by (auto simp: noSelfReference_def split: option.splits)
qed


section \<open>The package table\<close>

lemma addSection_lookup:
  "uniqueKeys deps \<Longrightarrow>
   map_of (addSection deps m) k =
     (case map_of (sectionEntries deps) k of Some v \<Rightarrow> Some (k @ ''@'' @ v) | None \<Rightarrow> map_of m k)"
  unfolding addSection_def uniqueKeys_def
  by (rule fold_map_set_lookup [where f = "\<lambda>n v. n @ ''@'' @ v"])

lemma buildPackageMap_lookup:
  assumes "uniqueKeys (pkg_dependencies pkg)" "uniqueKeys (pkg_devDependencies pkg)"
    "uniqueKeys (pkg_peerDependencies pkg)"
  shows "map_get (buildPackageMap pkg) n = map_option (\<lambda>v. n @ ''@'' @ v) (precedenceVersion pkg n)"
  by (simp add: buildPackageMap_def map_get_def addSection_lookup assms precedenceVersion_def
      split: option.splits)

lemma npm_analyzeImport:
  "npm (analyzeImport pm rm p d) = npm d \<or>
   (map_has pm (toPackageName p) \<and>
    npm (analyzeImport pm rm p d) = set_add (the (map_get pm (toPackageName p))) (npm d))"
  by (simp add: analyzeImport_def Let_def)

lemma npm_fold_analyzeImport:
  "x \<in> set (npm (fold (analyzeImport pm rm) ps d)) \<Longrightarrow>
   x \<in> set (npm d) \<or> (\<exists>p\<in>set ps. map_get pm (toPackageName p) = Some x)"
proof (induction ps arbitrary: d)
  case Nil
  then show ?case by simp
next
  case (Cons p ps)
  from Cons.IH [of "analyzeImport pm rm p d"] Cons.prems
  consider "x \<in> set (npm (analyzeImport pm rm p d))" | "\<exists>q\<in>set ps. map_get pm (toPackageName q) = Some x"
    by auto
  then show ?case
  proof cases
    case 1
    with npm_analyzeImport [of pm rm p d] show ?thesis
      by (auto simp: set_set_add map_has_def map_get_def)
  next
    case 2
    then show ?thesis by auto
  qed
qed

lemma npm_analyzeFile:
  "x \<in> set (npm (analyzeFile ps pm rm)) \<Longrightarrow> \<exists>p\<in>set ps. map_get pm (toPackageName p) = Some x"
  unfolding analyzeFile_def by (drule npm_fold_analyzeImport) simp

lemma npm_fold_addFileDeps:
  "x \<in> set (npm (fold (addFileDeps pm rm) fs acc)) \<Longrightarrow>
   x \<in> set (npm acc) \<or> (\<exists>f\<in>set fs. \<exists>p\<in>set (snd f). map_get pm (toPackageName p) = Some x)"
proof (induction fs arbitrary: acc)
  case Nil
  then show ?case by simp
next
  case (Cons f fs)
  from Cons.IH [of "addFileDeps pm rm f acc"] Cons.prems
  consider "x \<in> set (npm (addFileDeps pm rm f acc))"
    | "\<exists>g\<in>set fs. \<exists>p\<in>set (snd g). map_get pm (toPackageName p) = Some x"
    by auto
  then show ?case
  proof cases
    case 1
    then have "x \<in> set (npm acc) \<or> x \<in> set (npm (analyzeFile (snd f) pm rm))"
      by (auto simp: addFileDeps_def Let_def set_set_addAll split: if_splits)
    then show ?thesis using npm_analyzeFile [of x "snd f" pm rm] by auto
  next
    case 2
    then show ?thesis by auto
  qed
qed

lemma npm_entityDeps:
  "x \<in> set (npm (entityDeps e fs pm rm)) \<Longrightarrow>
   \<exists>f\<in>set fs. \<exists>p\<in>set (snd f). map_get pm (toPackageName p) = Some x"
  unfolding entityDeps_def Let_def
  using npm_fold_addFileDeps [of x pm rm fs "\<lparr>npm = [], registry = [], unresolved = []\<rparr>"]
  by simp

text \<open>
  Claim C10. The package table maps a name to \<^verbatim>\<open>name@version\<close> with the version
  of the last section that lists the name (\<^verbatim>\<open>peerDependencies\<close> over
  \<^verbatim>\<open>devDependencies\<close> over \<^verbatim>\<open>dependencies\<close>); and every package
  dependency that the analysis of a file records, and every one an item lists, is such a
  string for the name it belongs to.
\<close>

theorem package_version_precedence:
  assumes "uniqueKeys (pkg_dependencies pkg)" "uniqueKeys (pkg_devDependencies pkg)"
    "uniqueKeys (pkg_peerDependencies pkg)"
  shows "map_get (buildPackageMap pkg) n = map_option (\<lambda>v. n @ ''@'' @ v) (precedenceVersion pkg n) \<and>
    (\<forall>d\<in>set (npm (analyzeFile importPaths (buildPackageMap pkg) registryEntityMap)).
       \<exists>p\<in>set importPaths. \<exists>v. precedenceVersion pkg (toPackageName p) = Some v \<and>
          d = toPackageName p @ ''@'' @ v) \<and>
    (\<forall>item w ds. processEntity categoryName entityName entityDir entries cat (buildPackageMap pkg)
                      registryEntityMap = (Some item, w) \<and> dependencies item = Some ds \<longrightarrow>
       (\<forall>d\<in>set ds. \<exists>m v. precedenceVersion pkg m = Some v \<and> d = m @ ''@'' @ v))"
proof -
  have look: "map_get (buildPackageMap pkg) m = map_option (\<lambda>v. m @ ''@'' @ v) (precedenceVersion pkg m)" for m
    by (rule buildPackageMap_lookup [OF assms])
  have a: "\<exists>p\<in>set importPaths. \<exists>v. precedenceVersion pkg (toPackageName p) = Some v \<and>
          d = toPackageName p @ ''@'' @ v"
    if "d \<in> set (npm (analyzeFile importPaths (buildPackageMap pkg) registryEntityMap))" for d
    using npm_analyzeFile [OF that] by (auto simp: look)
  have b: "\<exists>m v. precedenceVersion pkg m = Some v \<and> d = m @ ''@'' @ v"
    if p: "processEntity categoryName entityName entityDir entries cat (buildPackageMap pkg)
                      registryEntityMap = (Some item, w)" and ds: "dependencies item = Some ds"
      and d: "d \<in> set ds" for item w ds d
  proof -
    from processEntity_Some [OF p] ds
    have "ds = sort (npm (entityDeps entityName (sourceFilesOf entityDir entries) (buildPackageMap pkg) registryEntityMap))"
      by (simp split: if_splits)
    with d have "d \<in> set (npm (entityDeps entityName (sourceFilesOf entityDir entries) (buildPackageMap pkg) registryEntityMap))"
      by simp
    from npm_entityDeps [OF this] show ?thesis by (auto simp: look)
  qed
  from look a b show ?thesis by blast
qed

text \<open>
  \<^verbatim>\<open>react\<close> is listed as \<^verbatim>\<open>18.2.0\<close> in \<^verbatim>\<open>dependencies\<close> and as
  \<^verbatim>\<open>^18\<close> in \<^verbatim>\<open>peerDependencies\<close>.
\<close>

theorem package_version_precedence_witness:
  "uniqueKeys (pkg_dependencies example_packageJson) \<and>
   uniqueKeys (pkg_devDependencies example_packageJson) \<and>
   uniqueKeys (pkg_peerDependencies example_packageJson) \<and>
   map_of (sectionEntries (pkg_dependencies example_packageJson)) ''react'' = Some ''18.2.0'' \<and>
   precedenceVersion example_packageJson ''react'' = Some ''^18'' \<and>
   map_get (buildPackageMap example_packageJson) ''react'' = Some ''react@^18'' \<and>
   npm (analyzeFile [''react/jsx-runtime''] (buildPackageMap example_packageJson) []) = [''react@^18''] \<and>
   (\<exists>v. precedenceVersion example_packageJson (toPackageName ''react/jsx-runtime'') = Some v \<and>
        ''react@^18'' = toPackageName ''react/jsx-runtime'' @ ''@'' @ v)"
proof -
  have u1: "uniqueKeys (pkg_dependencies example_packageJson)" by code_simp
  have u2: "uniqueKeys (pkg_devDependencies example_packageJson)" by code_simp
  have u3: "uniqueKeys (pkg_peerDependencies example_packageJson)" by code_simp
  have d: "map_of (sectionEntries (pkg_dependencies example_packageJson)) ''react'' = Some ''18.2.0''"
    by code_simp
  have v: "precedenceVersion example_packageJson ''react'' = Some ''^18''" by code_simp
  have f: "npm (analyzeFile [''react/jsx-runtime''] (buildPackageMap example_packageJson) []) = [''react@^18'']"
    by code_simp
  note t = package_version_precedence [OF u1 u2 u3, where n = "''react''"
      and importPaths = "[''react/jsx-runtime'']" and registryEntityMap = "[]"]
  from t v have g: "map_get (buildPackageMap example_packageJson) ''react'' = Some ''react@^18''"
    by simp
  from t have "\<forall>d\<in>set (npm (analyzeFile [''react/jsx-runtime''] (buildPackageMap example_packageJson) [])).
       \<exists>p\<in>set [''react/jsx-runtime'']. \<exists>v. precedenceVersion example_packageJson (toPackageName p) = Some v \<and>
          d = toPackageName p @ ''@'' @ v"
    by blast
  then have e: "\<exists>v. precedenceVersion example_packageJson (toPackageName ''react/jsx-runtime'') = Some v \<and>
        ''react@^18'' = toPackageName ''react/jsx-runtime'' @ ''@'' @ v"
    unfolding f by simp
  from u1 u2 u3 d v g f e show ?thesis by blast
qed

section \<open>Properties of the run\<close>

lemma main_Wrote:
  assumes "main options faults root packageJson outputFile = (Wrote reg, log)"
  shows "\<exists>pkg log1 rm rootEnts st.
     loadPackageJson packageJson = Some (pkg, log1) \<and>
     buildRegistryEntityMap root = Some rm \<and>
     root = RootDir rootEnts \<and> activeCategoriesOf rootEnts \<noteq> [] \<and>
     \<not> writeFails faults \<and>
     \<not> throws faults (mapReads rootEnts) \<and> \<not> throws faults [REGISTRY_DIR] \<and>
     \<not> throws faults (loopReads options (existingItemMapOf (fst (loadExistingRegistry outputFile)))
                        rootEnts) \<and>
     processCategories options (existingItemMapOf (fst (loadExistingRegistry outputFile)))
        (buildPackageMap pkg) rm rootEnts (activeCategoriesOf rootEnts)
        \<lparr>added = 0, updated = 0, skipped = 0,
         updatedItemMap = existingItemMapOf (fst (loadExistingRegistry outputFile)),
         console = log1 @ snd (loadExistingRegistry outputFile)\<rparr> = Some st \<and>
     reg = \<lparr>registry_schema = REGISTRY_SCHEMA,
            registry_name = (case fst (loadExistingRegistry outputFile) of
                               None \<Rightarrow> REGISTRY_NAME | Some r \<Rightarrow> registry_name r),
            registry_homepage = (case fst (loadExistingRegistry outputFile) of
                               None \<Rightarrow> REGISTRY_HOMEPAGE | Some r \<Rightarrow> registry_homepage r),
            registry_items = map_values (updatedItemMap st)\<rparr>"
  using assms
  by (auto simp: main_def Let_def rootEntries_def
      split: if_splits option.splits rootdir.splits prod.splits)












lemma entityStep_skip:
  "noOverride options \<Longrightarrow> map_has ex e \<Longrightarrow>
   entityStep options ex pm rm cn cat cdir (e, entries) st =
     st\<lparr>skipped := skipped st + 1, console := console st @ [LogSkipped e]\<rparr>"
  by (simp add: entityStep_def)

lemma entityStep_keeps_existing:
  assumes "noOverride options" "\<exists>rest. updatedItemMap st = ex @ rest"
  shows "\<exists>rest. updatedItemMap (entityStep options ex pm rm cn cat cdir e st) = ex @ rest"
proof (cases "map_has ex (fst e)")
  case True
  with assms show ?thesis by (simp add: entityStep_def)
next
  case False
  then have n: "map_of ex (fst e) = None" by (simp add: map_has_def)
  from assms(2) obtain rest where r: "updatedItemMap st = ex @ rest" by blast
  show ?thesis
    using False by (auto simp: entityStep_def Let_def r map_set_append [OF n] split: option.splits)
qed

lemma fold_entityStep_keeps_existing:
  assumes "noOverride options"
  shows "\<exists>rest. updatedItemMap st = ex @ rest \<Longrightarrow>
         \<exists>rest. updatedItemMap (fold (entityStep options ex pm rm cn cat cdir) es st) = ex @ rest"
proof (induction es arbitrary: st)
  case Nil
  then show ?case by simp
next
  case (Cons e es)
  have "\<exists>rest. updatedItemMap (entityStep options ex pm rm cn cat cdir e st) = ex @ rest"
    by (rule entityStep_keeps_existing [OF assms Cons.prems])
  from Cons.IH [OF this] show ?case by simp
qed

lemma categoryStep_keeps_existing:
  assumes "noOverride options" "\<exists>rest. updatedItemMap st = ex @ rest"
    "categoryStep options ex pm rm rootEnts c st = Some st'"
  shows "\<exists>rest. updatedItemMap st' = ex @ rest"
proof -
  from assms(3) obtain cat entries where
    s: "st' = st \<or> st' = fold (entityStep options ex pm rm c cat (path_join REGISTRY_DIR c))
           (filter (\<lambda>e. targeted options c (fst e)) (subdirs entries))
           (st\<lparr>console := console st @ [LogCategory c]\<rparr>)"
    by (auto simp: categoryStep_def Let_def split: option.splits if_splits)
  from assms(2) have "\<exists>rest. updatedItemMap (st\<lparr>console := console st @ [LogCategory c]\<rparr>) = ex @ rest"
    by simp
  from fold_entityStep_keeps_existing [OF assms(1) this] s assms(2) show ?thesis by auto
qed

lemma processCategories_keeps_existing:
  assumes "noOverride options"
  shows "\<exists>rest. updatedItemMap st = ex @ rest \<Longrightarrow>
         processCategories options ex pm rm rootEnts cs st = Some st' \<Longrightarrow>
         \<exists>rest. updatedItemMap st' = ex @ rest"
proof (induction cs arbitrary: st)
  case Nil
  then show ?case by simp
next
  case (Cons c cs)
  from Cons.prems(2) obtain st1 where
    a: "categoryStep options ex pm rm rootEnts c st = Some st1" and
    b: "processCategories options ex pm rm rootEnts cs st1 = Some st'"
    by (auto split: option.splits)
  from categoryStep_keeps_existing [OF assms Cons.prems(1) a]
  have "\<exists>rest. updatedItemMap st1 = ex @ rest" .
  from Cons.IH [OF this b] show ?case .
qed

lemma existingItemMapOf_distinct:
  "distinct (map item_name (registry_items r)) \<Longrightarrow>
   map_values (existingItemMapOf (Some r)) = registry_items r"
proof -
  assume d: "distinct (map item_name (registry_items r))"
  have "map fst (map (\<lambda>item. (item_name item, item)) (registry_items r)) = map item_name (registry_items r)"
    by (simp add: comp_def)
  with d have "distinct (map fst (map (\<lambda>item. (item_name item, item)) (registry_items r)))"
    by (simp only:)
  from map_new_distinct [OF this] show ?thesis
    by (simp add: existingItemMapOf_def existingItems_def map_values_def comp_def)
qed

lemma set_map_set: "x \<in> set (map_set k v m) \<Longrightarrow> x = (k, v) \<or> x \<in> set m"
  by (induction m) (auto split: if_splits)

lemma entityStep_items:
  assumes "\<forall>cn e dir entries cat pm rm item w.
             processEntity cn e dir entries cat pm rm = (Some item, w) \<longrightarrow> P item"
    and "\<forall>x\<in>set (updatedItemMap st). snd x \<in> E \<or> P (snd x)"
  shows "\<forall>x\<in>set (updatedItemMap (entityStep options ex pm rm cn cat cdir e st)). snd x \<in> E \<or> P (snd x)"
proof (cases "noOverride options \<and> map_has ex (fst e)")
  case True
  with assms(2) show ?thesis by (simp add: entityStep_def)
next
  case False
  show ?thesis
  proof (cases "fst (processEntity cn (fst e) (path_join cdir (fst e)) (snd e) cat pm rm)")
    case None
    with False assms(2) show ?thesis by (simp add: entityStep_def Let_def)
  next
    case (Some item)
    then have "processEntity cn (fst e) (path_join cdir (fst e)) (snd e) cat pm rm
                 = (Some item, snd (processEntity cn (fst e) (path_join cdir (fst e)) (snd e) cat pm rm))"
      by (metis prod.collapse)
    with assms(1) have p: "P item" by blast
    have u: "updatedItemMap (entityStep options ex pm rm cn cat cdir e st)
               = map_set (fst e) item (updatedItemMap st)"
      using False Some by (auto simp: entityStep_def Let_def)
    show ?thesis
      unfolding u using set_map_set [of _ "fst e" item "updatedItemMap st"] assms(2) p by fastforce
  qed
qed

lemma fold_entityStep_items:
  assumes "\<forall>cn e dir entries cat pm rm item w.
             processEntity cn e dir entries cat pm rm = (Some item, w) \<longrightarrow> P item"
  shows "\<forall>x\<in>set (updatedItemMap st). snd x \<in> E \<or> P (snd x) \<Longrightarrow>
         \<forall>x\<in>set (updatedItemMap (fold (entityStep options ex pm rm cn cat cdir) es st)).
            snd x \<in> E \<or> P (snd x)"
proof (induction es arbitrary: st)
  case Nil
  then show ?case by simp
next
  case (Cons e es)
  have "\<forall>x\<in>set (updatedItemMap (entityStep options ex pm rm cn cat cdir e st)). snd x \<in> E \<or> P (snd x)"
    by (rule entityStep_items [where P = P and E = E, OF assms Cons.prems])
  from Cons.IH [OF this] show ?case by simp
qed

lemma categoryStep_items:
  assumes "\<forall>cn e dir entries cat pm rm item w.
             processEntity cn e dir entries cat pm rm = (Some item, w) \<longrightarrow> P item"
    and "\<forall>x\<in>set (updatedItemMap st). snd x \<in> E \<or> P (snd x)"
    and "categoryStep options ex pm rm rootEnts c st = Some st'"
  shows "\<forall>x\<in>set (updatedItemMap st'). snd x \<in> E \<or> P (snd x)"
proof -
  from assms(3) obtain cat entries where
    s: "st' = st \<or> st' = fold (entityStep options ex pm rm c cat (path_join REGISTRY_DIR c))
           (filter (\<lambda>e. targeted options c (fst e)) (subdirs entries))
           (st\<lparr>console := console st @ [LogCategory c]\<rparr>)"
    by (auto simp: categoryStep_def Let_def split: option.splits if_splits)
  from assms(2)
  have "\<forall>x\<in>set (updatedItemMap (st\<lparr>console := console st @ [LogCategory c]\<rparr>)). snd x \<in> E \<or> P (snd x)"
    by simp
  note f = fold_entityStep_items [where P = P and E = E, OF assms(1) this]
  from s show ?thesis
  proof
    assume "st' = st"
    with assms(2) show ?thesis by simp
  next
    assume "st' = fold (entityStep options ex pm rm c cat (path_join REGISTRY_DIR c))
           (filter (\<lambda>e. targeted options c (fst e)) (subdirs entries))
           (st\<lparr>console := console st @ [LogCategory c]\<rparr>)"
    with f show ?thesis by simp
  qed
qed

lemma processCategories_items:
  assumes "\<forall>cn e dir entries cat pm rm item w.
             processEntity cn e dir entries cat pm rm = (Some item, w) \<longrightarrow> P item"
  shows "\<forall>x\<in>set (updatedItemMap st). snd x \<in> E \<or> P (snd x) \<Longrightarrow>
         processCategories options ex pm rm rootEnts cs st = Some st' \<Longrightarrow>
         \<forall>x\<in>set (updatedItemMap st'). snd x \<in> E \<or> P (snd x)"
proof (induction cs arbitrary: st)
  case Nil
  then show ?case by simp
next
  case (Cons c cs)
  from Cons.prems(2) obtain st1 where
    a: "categoryStep options ex pm rm rootEnts c st = Some st1" and
    b: "processCategories options ex pm rm rootEnts cs st1 = Some st'"
    by (auto split: option.splits)
  have "\<forall>x\<in>set (updatedItemMap st1). snd x \<in> E \<or> P (snd x)"
    by (rule categoryStep_items [where P = P and E = E, OF assms Cons.prems(1) a])
  from Cons.IH [OF this b] show ?case .
qed

lemma main_items:
  assumes "\<forall>cn e dir entries cat pm rm item w.
             processEntity cn e dir entries cat pm rm = (Some item, w) \<longrightarrow> P item"
    and m: "main options faults root packageJson outputFile = (Wrote reg, log)"
  shows "\<forall>item\<in>set (registry_items reg).
           item \<in> set (map_values (existingItemMapOf (fst (loadExistingRegistry outputFile)))) \<or> P item"
proof -
  let ?ex = "existingItemMapOf (fst (loadExistingRegistry outputFile))"
  from main_Wrote [OF m] obtain pkg log1 rm rootEnts st' where
    p: "processCategories options ?ex (buildPackageMap pkg) rm rootEnts (activeCategoriesOf rootEnts)
        \<lparr>added = 0, updated = 0, skipped = 0, updatedItemMap = ?ex,
         console = log1 @ snd (loadExistingRegistry outputFile)\<rparr> = Some st'"
    and r: "registry_items reg = map_values (updatedItemMap st')"
    by auto
  have "\<forall>x\<in>set (updatedItemMap \<lparr>added = 0, updated = 0, skipped = 0, updatedItemMap = ?ex,
         console = log1 @ snd (loadExistingRegistry outputFile)\<rparr>). snd x \<in> snd ` set ?ex \<or> P (snd x)"
    by simp
  from processCategories_items [where P = P and E = "snd ` set ?ex", OF assms(1) this p]
  show ?thesis by (simp add: r map_values_def)
qed

text \<open>
  The item of an entity that is processed is stored under the name of its directory.
\<close>

lemma entityStep_stores_by_directory_name:
  assumes "\<not> (noOverride options \<and> map_has ex e)"
    and "processEntity cn e (path_join cdir e) entries cat pm rm = (Some item, w)"
  shows "updatedItemMap (entityStep options ex pm rm cn cat cdir (e, entries) st)
           = map_set e item (updatedItemMap st)"
  using assms by (auto simp: entityStep_def Let_def)

text \<open>Three runs, evaluated.\<close>

lemma kept_run:
  "main keep_existing no_faults example_root (Parsed example_packageJson) (Parsed persisted_registry)
     = (Wrote kept_registry, [LogCategory ''components'', LogSkipped ''button'', LogAdded ''card''])"
  by code_simp

lemma fresh_run:
  "main overwrite no_faults example_root (Parsed example_packageJson) Absent
     = (Wrote fresh_registry, [LogCategory ''components'', LogAdded ''button'', LogAdded ''card''])"
  by code_simp

text \<open>
  Claim C4. Once an entity is analysed, its own canonical name is not in its registry
  set; deleting the name once more changes nothing; the
  \<^verbatim>\<open>registryDependencies\<close> of the item built from the set do not hold it;
  and in the manifest a run writes, every item that is not a persisted one is free of
  its own name.
\<close>

theorem no_self_reference:
  "toKebabCase entityName \<notin> set (registry (entityDeps entityName sourceFiles packageMap registryEntityMap)) \<and>
   set_delete (toKebabCase entityName)
       (registry (entityDeps entityName sourceFiles packageMap registryEntityMap))
     = registry (entityDeps entityName sourceFiles packageMap registryEntityMap) \<and>
   (\<forall>item w ds.
      processEntity categoryName entityName entityDir entries cat packageMap registryEntityMap = (Some item, w)
      \<and> registryDependencies item = Some ds \<longrightarrow> toKebabCase entityName \<notin> set ds) \<and>
   (\<forall>reg log. main options faults root packageJson outputFile = (Wrote reg, log) \<longrightarrow>
      (\<forall>item\<in>set (registry_items reg).
         item \<in> set (map_values (existingItemMapOf (fst (loadExistingRegistry outputFile))))
         \<or> noSelfReference item))"
proof -
  note e = entity_no_self_reference [of entityName sourceFiles packageMap registryEntityMap
      categoryName entityDir entries cat]
  have p: "\<forall>cn e dir entries cat pm rm item w.
             processEntity cn e dir entries cat pm rm = (Some item, w) \<longrightarrow> noSelfReference item"
    using processEntity_noSelfReference by blast
  have r: "\<forall>item\<in>set (registry_items reg).
         item \<in> set (map_values (existingItemMapOf (fst (loadExistingRegistry outputFile))))
         \<or> noSelfReference item"
    if "main options faults root packageJson outputFile = (Wrote reg, log)" for reg log
    by (rule main_items [where P = noSelfReference, OF p that])
  from e r show ?thesis by blast
qed

text \<open>
  The file of \<^verbatim>\<open>components/card\<close> imports \<^verbatim>\<open>@/components/card/helpers\<close>,
  which resolves to \<^verbatim>\<open>card\<close>; the item lists \<^verbatim>\<open>input\<close> only.
\<close>

theorem no_self_reference_witness:
  "resolveRegistryDep ''@/components/card/helpers'' [(''components/card'', ''card'')] = Some ''card'' \<and>
   processEntity ''components'' ''card'' ''registry/components/card'' card_entries components
     (buildPackageMap example_packageJson) [(''components/card'', ''card'')] = (Some card_item, []) \<and>
   registryDependencies card_item = Some [''input''] \<and>
   toKebabCase ''card'' \<notin> set [''input''] \<and>
   main overwrite no_faults example_root (Parsed example_packageJson) Absent
     = (Wrote fresh_registry, [LogCategory ''components'', LogAdded ''button'', LogAdded ''card'']) \<and>
   noSelfReference button_item \<and> noSelfReference card_item"
proof -
  have a: "resolveRegistryDep ''@/components/card/helpers'' [(''components/card'', ''card'')] = Some ''card''"
    by code_simp
  have p: "processEntity ''components'' ''card'' ''registry/components/card'' card_entries components
     (buildPackageMap example_packageJson) [(''components/card'', ''card'')] = (Some card_item, [])"
    by code_simp
  have r: "registryDependencies card_item = Some [''input'']"
    by (simp add: card_item_def)
  note t = no_self_reference [where entityName = "''card''" and categoryName = "''components''"
        and entityDir = "''registry/components/card''" and entries = card_entries
        and cat = components and packageMap = "buildPackageMap example_packageJson"
        and registryEntityMap = "[(''components/card'', ''card'')]" and options = overwrite
        and faults = no_faults and root = example_root and packageJson = "Parsed example_packageJson"
        and outputFile = Absent]
  from t p r have k: "toKebabCase ''card'' \<notin> set [''input'']"
    by blast
  from t fresh_run
  have "\<forall>item\<in>set (registry_items fresh_registry).
         item \<in> set (map_values (existingItemMapOf (fst (loadExistingRegistry Absent))))
         \<or> noSelfReference item"
    by blast
  then have n: "noSelfReference button_item \<and> noSelfReference card_item"
    by (simp add: fresh_registry_def loadExistingRegistry_def existingItemMapOf_def
        existingItems_def map_new_def map_values_def)
  from a p r k fresh_run n show ?thesis by blast
qed

text \<open>
  Claim C8. In an item that \<^verbatim>\<open>processEntity\<close> builds, \<^verbatim>\<open>dependencies\<close>
  and \<^verbatim>\<open>registryDependencies\<close> are each left out exactly when the entity's set
  is empty, and otherwise list the elements of the set in strictly increasing order
  (so without a duplicate); and in the manifest a run writes, every item that is not a
  persisted one has its lists non-empty and strictly increasing.
\<close>

theorem sorted_dependency_lists:
  "(processEntity categoryName entityName entityDir entries cat packageMap registryEntityMap = (Some item, w)
    \<longrightarrow>
      (case dependencies item of
         None \<Rightarrow> npm (entityDeps entityName (sourceFilesOf entityDir entries) packageMap registryEntityMap) = []
       | Some ds \<Rightarrow> ds \<noteq> [] \<and> sorted_wrt (<) ds \<and> distinct ds \<and>
           set ds = set (npm (entityDeps entityName (sourceFilesOf entityDir entries) packageMap registryEntityMap))) \<and>
      (case registryDependencies item of
         None \<Rightarrow> registry (entityDeps entityName (sourceFilesOf entityDir entries) packageMap registryEntityMap) = []
       | Some ds \<Rightarrow> ds \<noteq> [] \<and> sorted_wrt (<) ds \<and> distinct ds \<and>
           set ds = set (registry (entityDeps entityName (sourceFilesOf entityDir entries) packageMap registryEntityMap)))) \<and>
   (main options faults root packageJson outputFile = (Wrote reg, log) \<longrightarrow>
      (\<forall>it\<in>set (registry_items reg).
         it \<in> set (map_values (existingItemMapOf (fst (loadExistingRegistry outputFile))))
         \<or> strictlySortedLists it))"
proof -
  have p: "\<forall>cn e dir entries cat pm rm item w.
             processEntity cn e dir entries cat pm rm = (Some item, w) \<longrightarrow> strictlySortedLists item"
    using processEntity_strictlySorted by blast
  have r: "\<forall>it\<in>set (registry_items reg).
         it \<in> set (map_values (existingItemMapOf (fst (loadExistingRegistry outputFile))))
         \<or> strictlySortedLists it"
    if "main options faults root packageJson outputFile = (Wrote reg, log)"
    by (rule main_items [where P = strictlySortedLists, OF p that])
  from processEntity_lists [of categoryName entityName entityDir entries cat packageMap registryEntityMap item w] r
  show ?thesis by blast
qed

text \<open>
  \<^verbatim>\<open>components/button\<close> imports \<^verbatim>\<open>react\<close> first and twice; its item lists
  \<^verbatim>\<open>clsx\<close> before \<^verbatim>\<open>react\<close>, each once, and has no
  \<^verbatim>\<open>registryDependencies\<close>.
\<close>

theorem sorted_dependency_lists_witness:
  "processEntity ''components'' ''button'' ''registry/components/button'' button_entries components
     (buildPackageMap example_packageJson) [] = (Some button_item, []) \<and>
   dependencies button_item = Some [''clsx@2.0.0'', ''react@^18''] \<and>
   sorted_wrt (<) [''clsx@2.0.0'', ''react@^18''] \<and>
   distinct [''clsx@2.0.0'', ''react@^18''] \<and>
   registryDependencies button_item = None \<and>
   main overwrite no_faults example_root (Parsed example_packageJson) Absent
     = (Wrote fresh_registry, [LogCategory ''components'', LogAdded ''button'', LogAdded ''card'']) \<and>
   strictlySortedLists button_item \<and> strictlySortedLists card_item"
proof -
  have p: "processEntity ''components'' ''button'' ''registry/components/button'' button_entries
     components (buildPackageMap example_packageJson) [] = (Some button_item, [])"
    by code_simp
  have d: "dependencies button_item = Some [''clsx@2.0.0'', ''react@^18'']"
    and r: "registryDependencies button_item = None"
    by (simp_all add: button_item_def)
  note t = sorted_dependency_lists [where categoryName = "''components''" and entityName = "''button''"
      and entityDir = "''registry/components/button''" and entries = button_entries
      and cat = components and packageMap = "buildPackageMap example_packageJson"
      and registryEntityMap = "[]" and item = button_item and w = "[]" and options = overwrite
      and faults = no_faults and root = example_root and packageJson = "Parsed example_packageJson"
      and outputFile = Absent and reg = fresh_registry
      and log = "[LogCategory ''components'', LogAdded ''button'', LogAdded ''card'']"]
  from t p
  have s: "sorted_wrt (<) [''clsx@2.0.0'', ''react@^18''] \<and> distinct [''clsx@2.0.0'', ''react@^18'']"
    unfolding d r by simp
  from t fresh_run
  have "\<forall>it\<in>set (registry_items fresh_registry).
         it \<in> set (map_values (existingItemMapOf (fst (loadExistingRegistry Absent))))
         \<or> strictlySortedLists it"
    by blast
  then have n: "strictlySortedLists button_item \<and> strictlySortedLists card_item"
    by (simp add: fresh_registry_def loadExistingRegistry_def existingItemMapOf_def
        existingItems_def map_new_def map_values_def)
  from p d r s fresh_run n show ?thesis by blast
qed

text \<open>
  Claim C6, amended. The manifest that a run writes has the fixed schema identifier
  always; its catalog name and homepage are those of the persisted manifest when one was
  read, and the fixed defaults when there is none or it does not parse.
\<close>

theorem manifest_metadata:
  assumes "main options faults root packageJson outputFile = (Wrote reg, log)"
  shows "registry_schema reg = REGISTRY_SCHEMA \<and>
         (\<forall>r. outputFile = Parsed r \<longrightarrow>
            registry_name reg = registry_name r \<and> registry_homepage reg = registry_homepage r) \<and>
         (outputFile = Absent \<or> outputFile = Unparseable \<longrightarrow>
            registry_name reg = REGISTRY_NAME \<and> registry_homepage reg = REGISTRY_HOMEPAGE)"
  using main_Wrote [OF assms] by (auto simp: loadExistingRegistry_def)

text \<open>
  One run reads a manifest named \<^verbatim>\<open>acme\<close>, the other finds none.
\<close>

theorem manifest_metadata_witness:
  "main keep_existing no_faults example_root (Parsed example_packageJson) (Parsed persisted_registry)
     = (Wrote kept_registry, [LogCategory ''components'', LogSkipped ''button'', LogAdded ''card'']) \<and>
   registry_name kept_registry = registry_name persisted_registry \<and>
   registry_homepage kept_registry = registry_homepage persisted_registry \<and>
   registry_schema kept_registry = REGISTRY_SCHEMA \<and>
   main overwrite no_faults example_root (Parsed example_packageJson) Absent
     = (Wrote fresh_registry, [LogCategory ''components'', LogAdded ''button'', LogAdded ''card'']) \<and>
   registry_name fresh_registry = REGISTRY_NAME \<and>
   registry_homepage fresh_registry = REGISTRY_HOMEPAGE"
  using manifest_metadata [OF kept_run] manifest_metadata [OF fresh_run] kept_run fresh_run
  by simp

text \<open>
  Claim C6 as stated fails for the schema identifier: the persisted manifest says
  \<^verbatim>\<open>https://example.com/schema.json\<close>, the manifest written does not.
\<close>

theorem schema_not_taken_from_persisted:
  "fst (main keep_existing no_faults example_root (Parsed example_packageJson) (Parsed persisted_registry))
     = Wrote kept_registry \<and>
   registry_schema kept_registry \<noteq> registry_schema persisted_registry"
proof -
  have "registry_schema kept_registry \<noteq> registry_schema persisted_registry"
    by (simp add: kept_registry_def persisted_registry_def)
  then show ?thesis by (simp add: kept_run)
qed




text \<open>
  With \<^verbatim>\<open>--no-override\<close>, an entity whose directory name is a key of the map of
  persisted items is not processed: whatever its directory holds, the step counts it as
  skipped, prints so and changes nothing else. The items of that map come first in the
  manifest written, unchanged; when the persisted names are pairwise different, that is
  the whole persisted list.
\<close>

lemma skip_by_directory_name:
  assumes "noOverride options"
  shows "(map_has existingItemMap entityName \<longrightarrow>
            entityStep options existingItemMap packageMap registryEntityMap categoryName cat
                categoryDir (entityName, entries) st
              = st\<lparr>skipped := skipped st + 1, console := console st @ [LogSkipped entityName]\<rparr>) \<and>
         (\<forall>reg log. main options faults root packageJson outputFile = (Wrote reg, log) \<longrightarrow>
            (\<exists>new. registry_items reg =
                map_values (existingItemMapOf (fst (loadExistingRegistry outputFile))) @ new) \<and>
            (\<forall>e item. map_get (existingItemMapOf (fst (loadExistingRegistry outputFile))) e = Some item
                \<longrightarrow> item \<in> set (registry_items reg)) \<and>
            (\<forall>r. outputFile = Parsed r \<and> distinct (map item_name (registry_items r)) \<longrightarrow>
                (\<exists>new. registry_items reg = registry_items r @ new)))"
proof -
  have a: "map_has existingItemMap entityName \<longrightarrow>
            entityStep options existingItemMap packageMap registryEntityMap categoryName cat
                categoryDir (entityName, entries) st
              = st\<lparr>skipped := skipped st + 1, console := console st @ [LogSkipped entityName]\<rparr>"
    using assms by (simp add: entityStep_skip)
  have b: "\<exists>new. registry_items reg =
                map_values (existingItemMapOf (fst (loadExistingRegistry outputFile))) @ new"
    if m: "main options faults root packageJson outputFile = (Wrote reg, log)" for reg log
  proof -
    let ?ex = "existingItemMapOf (fst (loadExistingRegistry outputFile))"
    from main_Wrote [OF m] obtain pkg log1 rm rootEnts st' where
      p: "processCategories options ?ex (buildPackageMap pkg) rm rootEnts (activeCategoriesOf rootEnts)
        \<lparr>added = 0, updated = 0, skipped = 0, updatedItemMap = ?ex,
         console = log1 @ snd (loadExistingRegistry outputFile)\<rparr> = Some st'"
      and r: "registry_items reg = map_values (updatedItemMap st')"
      by auto
    have "\<exists>rest. updatedItemMap \<lparr>added = 0, updated = 0, skipped = 0, updatedItemMap = ?ex,
         console = log1 @ snd (loadExistingRegistry outputFile)\<rparr> = ?ex @ rest"
      by simp
    from processCategories_keeps_existing [OF assms this p]
    obtain rest where "updatedItemMap st' = ?ex @ rest" by blast
    with r show ?thesis by (simp add: map_values_def)
  qed
  have b': "item \<in> set (registry_items reg)"
    if m: "main options faults root packageJson outputFile = (Wrote reg, log)"
      and g: "map_get (existingItemMapOf (fst (loadExistingRegistry outputFile))) e = Some item"
    for reg log e item
  proof -
    from g have "item \<in> set (map_values (existingItemMapOf (fst (loadExistingRegistry outputFile))))"
      by (auto simp: map_get_def map_values_def dest: map_of_SomeD intro: rev_image_eqI)
    with b [OF m] show ?thesis by auto
  qed
  have c: "\<exists>new. registry_items reg = registry_items r @ new"
    if m: "main options faults root packageJson outputFile = (Wrote reg, log)"
      and o: "outputFile = Parsed r" and d: "distinct (map item_name (registry_items r))" for reg log r
    using b [OF m] existingItemMapOf_distinct [OF d] o by (simp add: loadExistingRegistry_def)
  from a b b' c show ?thesis by blast
qed

text \<open>
  Claim C5 does not hold of the code. The map of persisted items is keyed by their
  (canonical) names, and the test for skipping looks the directory name up in it. With
  \<^verbatim>\<open>--no-override\<close>, the directory \<^verbatim>\<open>components/MyButton\<close> and the
  persisted item \<^verbatim>\<open>my-button\<close>, the entity is processed and reported as added,
  and a second item of the same name is appended. Run once more over the same tree and
  the manifest just written, the run loses the older of the two items: the map keeps
  one value for a name.
\<close>

theorem existing_item_not_skipped:
  "toKebabCase ''MyButton'' = item_name stale_my_button \<and>
   main keep_existing no_faults pascal_root (Parsed example_packageJson) (Parsed pascal_registry)
     = (Wrote (pascal_registry\<lparr>registry_items := [stale_my_button, fresh_my_button]\<rparr>),
        [LogCategory ''components'', LogAdded ''MyButton'']) \<and>
   main keep_existing no_faults pascal_root (Parsed example_packageJson)
       (Parsed (pascal_registry\<lparr>registry_items := [stale_my_button, fresh_my_button]\<rparr>))
     = (Wrote (pascal_registry\<lparr>registry_items := [fresh_my_button, fresh_my_button]\<rparr>),
        [LogCategory ''components'', LogAdded ''MyButton'']) \<and>
   stale_my_button \<noteq> fresh_my_button"
  by code_simp

text \<open>
  Claim C9. An entity directory with no eligible source file gives no item and the
  diagnostic; the step leaves the item map as it was, so an item stored under the same
  name stays; and the loop goes on with the other entities from the state that differs
  by the diagnostic only.
\<close>

theorem no_source_files:
  assumes "sourceFilesOf (path_join categoryDir entityName) entries = []"
  shows "processEntity categoryName entityName (path_join categoryDir entityName) entries cat
            packageMap registryEntityMap = (None, [WarnNoSourceFiles categoryName entityName]) \<and>
         updatedItemMap (entityStep options existingItemMap packageMap registryEntityMap categoryName
            cat categoryDir (entityName, entries) st) = updatedItemMap st \<and>
         (\<not> (noOverride options \<and> map_has existingItemMap entityName) \<longrightarrow>
            fold (entityStep options existingItemMap packageMap registryEntityMap categoryName cat
                    categoryDir) ((entityName, entries) # others) st
              = fold (entityStep options existingItemMap packageMap registryEntityMap categoryName cat
                    categoryDir) others
                  (st\<lparr>console := console st @ [WarnNoSourceFiles categoryName entityName]\<rparr>))"
  using processEntity_no_sources [OF assms]
  by (simp add: entityStep_def Let_def)

text \<open>
  \<^verbatim>\<open>components/empty\<close> holds a test file and a note; the manifest has an item
  under that name.
\<close>

theorem no_source_files_witness:
  "sourceFilesOf (path_join ''registry/components'' ''empty'') empty_entries = [] \<and>
   processEntity ''components'' ''empty'' (path_join ''registry/components'' ''empty'') empty_entries
     components [] [] = (None, [WarnNoSourceFiles ''components'' ''empty'']) \<and>
   fold (entityStep overwrite [(''empty'', persisted_button)] [] [] ''components'' components
           ''registry/components'') [(''empty'', empty_entries)]
        (start_state [(''empty'', persisted_button)])
     = (start_state [(''empty'', persisted_button)])
         \<lparr>console := [WarnNoSourceFiles ''components'' ''empty'']\<rparr>"
proof -
  have e: "sourceFilesOf (path_join ''registry/components'' ''empty'') empty_entries = []"
    by code_simp
  have o: "\<not> (noOverride overwrite \<and> map_has [(''empty'', persisted_button)] ''empty'')"
    by (simp add: overwrite_def)
  note t = no_source_files [OF e, where categoryName = "''components''" and cat = components
      and packageMap = "[]" and registryEntityMap = "[]" and options = overwrite
      and existingItemMap = "[(''empty'', persisted_button)]" and others = "[]"
      and st = "start_state [(''empty'', persisted_button)]"]
  from t o have f: "fold (entityStep overwrite [(''empty'', persisted_button)] [] [] ''components''
           components ''registry/components'') [(''empty'', empty_entries)]
        (start_state [(''empty'', persisted_button)])
     = (start_state [(''empty'', persisted_button)])
         \<lparr>console := [WarnNoSourceFiles ''components'' ''empty'']\<rparr>"
    by (simp add: start_state_def)
  from t e f show ?thesis by blast
qed

text \<open>
  Claim C1 does not hold of the code. The persisted items are keyed by their (canonical)
  names, the items of the run by directory names: for the directory
  \<^verbatim>\<open>components/MyButton\<close>, whose canonical name is \<^verbatim>\<open>my-button\<close>, the run
  without \<^verbatim>\<open>--no-override\<close> appends the fresh item and keeps the persisted one of
  the same canonical name, stale file list included.
\<close>

theorem stale_item_survives:
  "main overwrite no_faults pascal_root (Parsed example_packageJson) (Parsed pascal_registry)
     = (Wrote (pascal_registry\<lparr>registry_items := [stale_my_button, fresh_my_button]\<rparr>),
        [LogCategory ''components'', LogAdded ''MyButton'']) \<and>
   toKebabCase ''MyButton'' = item_name stale_my_button \<and>
   item_name fresh_my_button = item_name stale_my_button \<and>
   item_files stale_my_button \<noteq> item_files fresh_my_button"
  by code_simp

end
